theory Spec2Isabelle
  imports Complex_Main "HOL-Library.Word" "HOL-Library.AList" "HOL-Library.Multiset"
begin

section \<open>Go values used by quickstart.go\<close>

text \<open>
  Go's \<^verbatim>\<open>int\<close> is a 64-bit two's complement integer on the platforms the program is
  built for: \<open>+\<close>, \<open>-\<close> and \<open>*\<close> wrap around, \<open><s\<close> is the signed comparison and
  \<open>sint\<close> reads the value. A Go \<^verbatim>\<open>string\<close> is a sequence of bytes; \<open>length\<close> is
  Go's \<^verbatim>\<open>len\<close>.
\<close>

type_synonym goint = "64 word"

text \<open>
  The two ways the process dies: \<^verbatim>\<open>log.Fatal\<close> (an explicit check of an \<^verbatim>\<open>err\<close>) and
  the run-time panic of an index out of range.
\<close>

datatype error = LogFatal | IndexOutOfRange

subsection \<open>float64\<close>

text \<open>
  A \<^verbatim>\<open>float64\<close> is kept as the real number it stands for. The conversion
  \<^verbatim>\<open>float64(x)\<close> and the division of two \<^verbatim>\<open>float64\<close> round to the nearest
  \<^verbatim>\<open>float64\<close>, a tie going to the even significand: a real \<open>x\<close> with
  \<open>2^e \<le> \<bar>x\<bar> < 2^(e+1)\<close> is rounded to a multiple of \<open>2^(e-52)\<close>. The model leaves
  out the infinities and the subnormal numbers; the program converts values of type
  \<^verbatim>\<open>int\<close> and divides one by another, where neither can arise.
\<close>

function floor_log2 :: "int \<Rightarrow> int" where
  "floor_log2 n = (if n < 2 then 0 else 1 + floor_log2 (n div 2))"
  by pat_completeness auto
termination
  by (relation "measure nat") auto

declare floor_log2.simps [simp del]

text \<open>The \<open>e\<close> with \<open>2^e \<le> x < 2^(e+1)\<close>, for a positive \<open>x\<close>.\<close>

definition binade :: "real \<Rightarrow> int" where
  "binade x =
     (if 1 \<le> x then floor_log2 \<lfloor>x\<rfloor>
      else
        (let k = floor_log2 \<lfloor>1 / x\<rfloor>
         in if x * 2 ^ nat k = 1 then - k else - k - 1))"

definition round_half_even :: "real \<Rightarrow> int" where
  "round_half_even m =
     (let f = \<lfloor>m\<rfloor>
      in if m - of_int f < 1 / 2 then f
         else if 1 / 2 < m - of_int f then f + 1
         else if even f then f else f + 1)"

definition float64 :: "real \<Rightarrow> real" where
  "float64 x =
     (if x = 0 then 0
      else
        (let ulp = 2 powi (binade \<bar>x\<bar> - 52)
         in of_int (round_half_even (x / ulp)) * ulp))"

subsection \<open>package strings\<close>

text \<open>\<^verbatim>\<open>strings.Split(s, sep)\<close> for a separator of one byte: one more piece than
  there are separators, so the result is never empty.\<close>

fun strings_Split :: "string \<Rightarrow> char \<Rightarrow> string list" where
  "strings_Split [] sep = [[]]"
| "strings_Split (c # cs) sep =
     (if c = sep then [] # strings_Split cs sep
      else (case strings_Split cs sep of
              [] \<Rightarrow> [[c]]
            | p # ps \<Rightarrow> (c # p) # ps))"

text \<open>\<^verbatim>\<open>strings.TrimLeft(s, cutset)\<close> for a cutset of ASCII bytes.\<close>

definition strings_TrimLeft :: "string \<Rightarrow> string \<Rightarrow> string" where
  "strings_TrimLeft s cutset = dropWhile (\<lambda>c. c \<in> set cutset) s"

text \<open>\<^verbatim>\<open>strings.SplitN(s, sep, 2)\<close> for a separator of one byte: the text before the
  first separator and the whole rest after it, or \<open>s\<close> alone when there is none.\<close>

definition strings_SplitN2 :: "string \<Rightarrow> char \<Rightarrow> string list" where
  "strings_SplitN2 s sep =
     (if sep \<in> set s
      then [takeWhile (\<lambda>c. c \<noteq> sep) s, tl (dropWhile (\<lambda>c. c \<noteq> sep) s)]
      else [s])"

text \<open>Indexing a slice: out of range is a panic.\<close>

definition index :: "'a list \<Rightarrow> nat \<Rightarrow> error + 'a" where
  "index xs i = (if i < length xs then Inr (xs ! i) else Inl IndexOutOfRange)"

subsection \<open>package strconv\<close>

definition is_decimal :: "char \<Rightarrow> bool" where
  "is_decimal c = (48 \<le> (of_char c :: int) \<and> (of_char c :: int) \<le> 57)"

text \<open>The two errors of a conversion, \<^verbatim>\<open>strconv.ErrSyntax\<close> and
  \<^verbatim>\<open>strconv.ErrRange\<close>; \<open>None\<close> is \<^verbatim>\<open>nil\<close>.\<close>

datatype num_error = ErrSyntax | ErrRange

text \<open>
  \<^verbatim>\<open>strconv.ParseUint(s, 10, 64)\<close>. The loop reads the bytes from left to right with
  the value \<open>n\<close> read so far, a \<^verbatim>\<open>uint64\<close>: a byte that is no decimal digit is a
  syntax error with the value 0; a digit that takes the value beyond
  \<open>2^64 - 1 = 18446744073709551615\<close> is a range error with that value, returned at once,
  before the bytes after it are looked at (\<open>1844674407370955162\<close> is the cutoff, the
  least \<open>n\<close> with \<open>n * 10\<close> above that bound).
\<close>

fun ParseUint_loop :: "string \<Rightarrow> int \<Rightarrow> int \<times> num_error option" where
  "ParseUint_loop [] n = (n, None)"
| "ParseUint_loop (c # cs) n =
     (if \<not> is_decimal c then (0, Some ErrSyntax)
      else if 1844674407370955162 \<le> n then (18446744073709551615, Some ErrRange)
      else
        (let n1 = n * 10 + (of_char c - 48)
         in if 18446744073709551615 < n1 then (18446744073709551615, Some ErrRange)
            else ParseUint_loop cs n1))"

definition ParseUint :: "string \<Rightarrow> int \<times> num_error option" where
  "ParseUint s = (if s = [] then (0, Some ErrSyntax) else ParseUint_loop s 0)"

text \<open>
  \<^verbatim>\<open>strconv.ParseInt(s, 10, 0)\<close>: the sign is taken off, the rest goes to
  \<^verbatim>\<open>ParseUint\<close>; a syntax error gives 0, a value out of the range of \<^verbatim>\<open>int64\<close> the
  nearest bound with the range error.
\<close>

definition ParseInt :: "string \<Rightarrow> int \<times> num_error option" where
  "ParseInt s =
     (if s = [] then (0, Some ErrSyntax)
      else
        (let neg = (hd s = CHR ''-'');
             s' = (if hd s = CHR ''+'' \<or> hd s = CHR ''-'' then tl s else s)
         in case ParseUint s' of
              (un, err) \<Rightarrow>
                if err = Some ErrSyntax then (0, err)
                else if \<not> neg \<and> 9223372036854775808 \<le> un
                  then (9223372036854775807, Some ErrRange)
                else if neg \<and> 9223372036854775808 < un
                  then (- 9223372036854775808, Some ErrRange)
                else (if neg then - un else un, None)))"

text \<open>\<^verbatim>\<open>strconv.Atoi(s)\<close>: \<^verbatim>\<open>ParseInt(s, 10, 0)\<close> as an \<^verbatim>\<open>int\<close>, with its error.\<close>

definition Atoi :: "string \<Rightarrow> goint \<times> num_error option" where
  "Atoi s = (case ParseInt s of (i64, err) \<Rightarrow> (word_of_int i64, err))"

text \<open>
  To speak of what \<^verbatim>\<open>Atoi\<close> is given: the text after an optional sign, the numerals
  (an optional sign and at least one decimal digit, nothing else), the decimal digits
  a text starts with after its sign, and the value of a string of digits.
\<close>

definition unsigned_part :: "string \<Rightarrow> string" where
  "unsigned_part s =
     (case s of
        [] \<Rightarrow> []
      | c # cs \<Rightarrow> if c = CHR ''-'' \<or> c = CHR ''+'' then cs else s)"

definition numeric :: "string \<Rightarrow> bool" where
  "numeric s = (unsigned_part s \<noteq> [] \<and> list_all is_decimal (unsigned_part s))"

definition leading_digits :: "string \<Rightarrow> string" where
  "leading_digits s = takeWhile is_decimal (unsigned_part s)"

definition decimal_value :: "string \<Rightarrow> int" where
  "decimal_value ds = foldl (\<lambda>n c. n * 10 + (of_char c - 48)) 0 ds"

subsection \<open>Ranging over a string; package unicode\<close>

text \<open>
  \<^verbatim>\<open>for _, r := range s\<close> decodes \<open>s\<close> as UTF-8, one rune (a code point) at a time;
  a byte that starts no valid encoding yields \<^verbatim>\<open>utf8.RuneError\<close> (U+FFFD) and is one
  byte wide. \<open>DecodeRuneInString\<close> returns the rune and its width in bytes.
\<close>

definition RuneError :: nat where
  "RuneError = 0xFFFD"

definition DecodeRuneInString :: "string \<Rightarrow> nat \<times> nat" where
  "DecodeRuneInString s =
     (case s of
        [] \<Rightarrow> (RuneError, 0)
      | c0 # _ \<Rightarrow>
          let s0 = (of_char c0 :: nat) in
          if s0 < 0x80 then (s0, 1)
          else if s0 < 0xC2 \<or> 0xF4 < s0 then (RuneError, 1)
          else
            let sz = (if s0 < 0xE0 then 2 else if s0 < 0xF0 then 3 else 4 :: nat);
                lo = (if s0 = 0xE0 then 0xA0 else if s0 = 0xF0 then 0x90 else 0x80 :: nat);
                hi = (if s0 = 0xED then 0x9F else if s0 = 0xF4 then 0x8F else 0xBF :: nat)
            in if length s < sz then (RuneError, 1)
               else
                 let s1 = (of_char (s ! 1) :: nat) in
                 if s1 < lo \<or> hi < s1 then (RuneError, 1)
                 else if sz \<le> 2 then ((s0 mod 0x20) * 0x40 + s1 mod 0x40, 2)
                 else
                   let s2 = (of_char (s ! 2) :: nat) in
                   if s2 < 0x80 \<or> 0xBF < s2 then (RuneError, 1)
                   else if sz \<le> 3
                     then ((s0 mod 0x10) * 0x1000 + (s1 mod 0x40) * 0x40 + s2 mod 0x40, 3)
                   else
                     let s3 = (of_char (s ! 3) :: nat) in
                     if s3 < 0x80 \<or> 0xBF < s3 then (RuneError, 1)
                     else ((s0 mod 8) * 0x40000 + (s1 mod 0x40) * 0x1000
                             + (s2 mod 0x40) * 0x40 + s3 mod 0x40, 4))"

lemma DecodeRuneInString_width: "(r, sz) = DecodeRuneInString (c # cs) \<Longrightarrow> 0 < sz"
  by (simp add: DecodeRuneInString_def Let_def split: if_splits)

function range_runes :: "string \<Rightarrow> nat list" where
  "range_runes [] = []"
| "range_runes (c # cs) =
     (case DecodeRuneInString (c # cs) of
        (r, sz) \<Rightarrow> r # range_runes (drop sz (c # cs)))"
  by pat_completeness auto
termination
  by (relation "measure length") (auto dest: DecodeRuneInString_width)

text \<open>
  \<^verbatim>\<open>unicode.IsLetter\<close> and \<^verbatim>\<open>unicode.IsDigit\<close> read the Unicode tables of Go's
  standard library, which are no part of this program: the model takes the two
  predicates on runes as a parameter.
\<close>

record unicode =
  IsLetter :: "nat \<Rightarrow> bool"
  IsDigit :: "nat \<Rightarrow> bool"

text \<open>The two predicates on Latin-1 (U+0000 to U+00FF), as Go's tables have them there;
  used to run the model on concrete texts of that range.\<close>

definition latin1 :: unicode where
  "latin1 =
     \<lparr> IsLetter = (\<lambda>r. (0x41 \<le> r \<and> r \<le> 0x5A) \<or> (0x61 \<le> r \<and> r \<le> 0x7A)
                        \<or> r = 0xAA \<or> r = 0xB5 \<or> r = 0xBA
                        \<or> (0xC0 \<le> r \<and> r \<le> 0xD6) \<or> (0xD8 \<le> r \<and> r \<le> 0xF6)
                        \<or> (0xF8 \<le> r \<and> r \<le> 0xFF)),
       IsDigit = (\<lambda>r. 0x30 \<le> r \<and> r \<le> 0x39) \<rparr>"

section \<open>The word records of a page\<close>

text \<open>The struct \<^verbatim>\<open>Word\<close>.\<close>

record Word =
  "text" :: string
  fontSize :: goint
  confidence :: goint
  isStrong :: bool
  isEm :: bool
  height :: goint
  weight :: goint
  props :: "(string \<times> string) list"

text \<open>
  What the program reads of a \<^verbatim>\<open>goquery.Selection\<close> holding one \<^verbatim>\<open>.ocrx_word\<close>
  element: its \<^verbatim>\<open>title\<close> attribute if it has one, its text, and how many
  \<^verbatim>\<open>strong\<close> and \<^verbatim>\<open>em\<close> elements are found below it.
\<close>

record selection =
  attr_title :: "string option"
  Text :: string
  strong :: nat
  em :: nat

definition AttrOr_title :: "selection \<Rightarrow> string \<Rightarrow> string" where
  "AttrOr_title s dflt = (case attr_title s of None \<Rightarrow> dflt | Some v \<Rightarrow> v)"

text \<open>
  A \<^verbatim>\<open>map[string]string\<close> is kept as an association list with one pair for
  each key: \<open>AList.update\<close> is the assignment \<^verbatim>\<open>m[k] = v\<close>, and reading a key
  the map does not hold gives the empty string.
\<close>

definition lookup :: "(string \<times> string) list \<Rightarrow> string \<Rightarrow> string" where
  "lookup m k = (case map_of m k of None \<Rightarrow> [] | Some v \<Rightarrow> v)"

text \<open>The stop list: the pieces of the literal, split at the spaces. The literal
  holds the bytes of the source file (one entry is not ASCII).\<close>

definition stoplist_literal :: string where
  "stoplist_literal =
     ''Mister Herr Frau 8052 8802 Artem Natalia Malyshev Malyshew Malysheva Weinbergstrasse 23 H''
     @ [CHR 0xC3, CHR 0x83, CHR 0xC2, CHR 0xB6]
     @ ''henring Schaffhauserstrasse 547''"

definition wordStoplist :: "string \<Rightarrow> bool" where
  "wordStoplist w = (w \<in> set (strings_Split stoplist_literal CHR '' ''))"

text \<open>The loop over the properties of the \<^verbatim>\<open>title\<close> attribute (lines 161 to 164):
  \<^verbatim>\<open>nameValue[1]\<close> panics when a property has no space after its name.\<close>

fun props_loop :: "string list \<Rightarrow> (string \<times> string) list \<Rightarrow> error + (string \<times> string) list" where
  "props_loop [] m = Inr m"
| "props_loop (prop # rest) m =
     (let nameValue = strings_SplitN2 (strings_TrimLeft prop '' '') CHR '' '' in
      case index nameValue 0 of
        Inl e \<Rightarrow> Inl e
      | Inr name \<Rightarrow>
          (case index nameValue 1 of
             Inl e \<Rightarrow> Inl e
           | Inr v \<Rightarrow> props_loop rest (AList.update name v m)))"

text \<open>The name under which a property is stored: \<^verbatim>\<open>nameValue[0]\<close>.\<close>

definition prop_name :: "string \<Rightarrow> string" where
  "prop_name prop = hd (strings_SplitN2 (strings_TrimLeft prop '' '') CHR '' '')"

text \<open>The body of the closure given to \<^verbatim>\<open>Each\<close> (lines 160 to 183), returning the
  word it appends.\<close>

definition parse_word :: "selection \<Rightarrow> error + Word" where
  "parse_word s =
     (case props_loop (strings_Split (AttrOr_title s []) CHR '';'') [] of
        Inl e \<Rightarrow> Inl e
      | Inr m \<Rightarrow>
          let fontSize = fst (Atoi (lookup m ''x_fsize''));
              confidence = fst (Atoi (lookup m ''x_wconf''))
          in (case index (strings_Split (lookup m ''bbox'') CHR '' '') 1 of
                Inl e \<Rightarrow> Inl e
              | Inr second \<Rightarrow>
                  (let height = fst (Atoi second);
                       isStrong = (strong s > 0);
                       isEm = (em s > 0);
                       weight = fontSize * 10;
                       weight = (if 1400 <s height then weight - 50 else weight);
                       weight = (if wordStoplist (Text s) then weight - 100 else weight)
                   in Inr \<lparr> text = Text s, fontSize = fontSize, confidence = confidence,
                            isStrong = isStrong, isEm = isEm, height = height,
                            weight = weight, props = m \<rparr>)))"

text \<open>\<^verbatim>\<open>Each\<close> over the selected elements, in document order, appending to
  \<^verbatim>\<open>words\<close>.\<close>

fun Each :: "selection list \<Rightarrow> Word list \<Rightarrow> error + Word list" where
  "Each [] words = Inr words"
| "Each (s # ss) words =
     (case parse_word s of
        Inl e \<Rightarrow> Inl e
      | Inr w \<Rightarrow> Each ss (words @ [w]))"

text \<open>
  What the program reads of the parsed hOCR document: the elements that carry an
  \<^verbatim>\<open>id\<close>, in document order, each with the \<^verbatim>\<open>.ocrx_word\<close> elements below it in
  document order. A word element comes with its node, a number that tells it from
  every other node of the document: an element that lies below two elements with an
  id is in the list of both, under the same number.
\<close>

record element =
  elem_id :: string
  ocrx_words :: "(nat \<times> selection) list"

type_synonym document = "element list"

text \<open>goquery's \<^verbatim>\<open>appendWithoutDuplicates\<close>: the nodes that are not yet in the target
  are appended to it, in their order.\<close>

fun appendWithoutDuplicates ::
  "(nat \<times> selection) list \<Rightarrow> (nat \<times> selection) list \<Rightarrow> (nat \<times> selection) list" where
  "appendWithoutDuplicates target [] = target"
| "appendWithoutDuplicates target (n # nodes) =
     (if fst n \<in> fst ` set target then appendWithoutDuplicates target nodes
      else appendWithoutDuplicates (target @ [n]) nodes)"

text \<open>
  \<^verbatim>\<open>doc.Find("#page_1").Find(".ocrx_word")\<close>: the first \<^verbatim>\<open>Find\<close> selects the
  elements whose id is \<^verbatim>\<open>page_1\<close>, the second collects the words below each of them
  in turn, every node once. It is the empty selection when no element has that id.
\<close>

definition Find_page_1_words :: "document \<Rightarrow> selection list" where
  "Find_page_1_words doc =
     map snd
       (foldl (\<lambda>target e. appendWithoutDuplicates target (ocrx_words e)) []
          (filter (\<lambda>e. elem_id e = ''page_1'') doc))"

section \<open>Sorting by weight\<close>

definition ByWeight_Less :: "Word \<Rightarrow> Word \<Rightarrow> bool" where
  "ByWeight_Less a b = (weight a <s weight b)"

text \<open>\<^verbatim>\<open>sort.Reverse\<close> swaps the arguments of \<^verbatim>\<open>Less\<close>.\<close>

definition Reverse :: "('a \<Rightarrow> 'a \<Rightarrow> bool) \<Rightarrow> 'a \<Rightarrow> 'a \<Rightarrow> bool" where
  "Reverse lt a b = lt b a"

text \<open>
  \<^verbatim>\<open>sort.Stable\<close> belongs to Go's library: it sorts in ascending order of \<^verbatim>\<open>Less\<close>
  and keeps the original order of equal elements. The model is the stable insertion
  sort, element by element from the right: an element goes in front of the first
  element that is not less than it.
\<close>

fun insert_stable :: "('a \<Rightarrow> 'a \<Rightarrow> bool) \<Rightarrow> 'a \<Rightarrow> 'a list \<Rightarrow> 'a list" where
  "insert_stable lt x [] = [x]"
| "insert_stable lt x (y # ys) =
     (if lt y x then y # insert_stable lt x ys else x # y # ys)"

definition sort_Stable :: "('a \<Rightarrow> 'a \<Rightarrow> bool) \<Rightarrow> 'a list \<Rightarrow> 'a list" where
  "sort_Stable lt xs = foldr (insert_stable lt) xs []"

section \<open>The title and the confidence of a page\<close>

text \<open>\<^verbatim>\<open>avg\<close> (lines 123 to 132): the sum is Go's, on \<^verbatim>\<open>int\<close>, and the result the
  quotient of the two conversions to \<^verbatim>\<open>float64\<close>.\<close>

definition avg :: "goint list \<Rightarrow> real" where
  "avg sl =
     (if length sl = 0 then 0
      else float64 (float64 (real_of_int (sint (foldl (+) 0 sl)))
                      / float64 (real (length sl))))"

text \<open>The loop over the runes of one word (lines 196 to 203).\<close>

fun rune_loop :: "unicode \<Rightarrow> goint \<Rightarrow> nat list \<Rightarrow> nat \<times> goint list \<Rightarrow> nat \<times> goint list" where
  "rune_loop U conf [] (letters, confidences) = (letters, confidences)"
| "rune_loop U conf (roone # rs) (letters, confidences) =
     (if IsLetter U roone \<or> IsDigit U roone
      then rune_loop U conf rs (letters + 1, confidences @ [conf])
      else rune_loop U conf rs (letters, confidences))"

text \<open>The loop over the sorted words (lines 194 to 210), with its \<^verbatim>\<open>break\<close>.\<close>

fun title_loop :: "unicode \<Rightarrow> Word list \<Rightarrow> string \<times> goint list \<Rightarrow> string \<times> goint list" where
  "title_loop U [] (title, confidences) = (title, confidences)"
| "title_loop U (word # rest) (title, confidences) =
     (case rune_loop U (confidence word) (range_runes (text word)) (0, confidences) of
        (letters, confidences') \<Rightarrow>
          let title' = (if letters > 0 \<and> 70 <s confidence word
                        then title @ text word @ '' '' else title)
          in if length title' > 80 then (title', confidences')
             else title_loop U rest (title', confidences'))"

text \<open>The title and the confidence score from the sorted words (lines 192 to 213).\<close>

definition title_and_confidence :: "unicode \<Rightarrow> Word list \<Rightarrow> string \<times> real" where
  "title_and_confidence U words =
     (case title_loop U words ([], []) of
        (title, confidences) \<Rightarrow> (title, avg confidences))"

text \<open>
  What the outside world answers when \<^verbatim>\<open>ocrImage\<close> runs for one input file and one
  output prefix: whether \<^verbatim>\<open>tesseract\<close> ran, whether the \<^verbatim>\<open>.hocr\<close> file opens, the
  document \<^verbatim>\<open>goquery.NewDocumentFromReader\<close> returns (\<open>None\<close> when it returns an
  error), and whether the \<^verbatim>\<open>-title.txt\<close> file can be created.
\<close>

record ocr_files =
  tesseract_ok :: bool
  hocr_opens :: bool
  hocr_document :: "document option"
  title_meta_creates :: bool

text \<open>\<^verbatim>\<open>ocrImage\<close> (lines 134 to 214); every \<^verbatim>\<open>log.Fatal\<close> ends the process.\<close>

definition ocrImage ::
  "unicode \<Rightarrow> (string \<Rightarrow> string \<Rightarrow> ocr_files) \<Rightarrow> string \<Rightarrow> string \<Rightarrow> error + (string \<times> real)" where
  "ocrImage U world tiffFile outputPrefix =
     (let io = world tiffFile outputPrefix in
      if \<not> tesseract_ok io then Inl LogFatal
      else if \<not> hocr_opens io then Inl LogFatal
      else (case hocr_document io of
              None \<Rightarrow> Inl LogFatal
            | Some doc \<Rightarrow>
                (case Each (Find_page_1_words doc) [] of
                   Inl e \<Rightarrow> Inl e
                 | Inr words \<Rightarrow>
                     (let sorted = sort_Stable (Reverse ByWeight_Less) words in
                      if \<not> title_meta_creates io then Inl LogFatal
                      else Inr (title_and_confidence U sorted)))))"

section \<open>The rotation loop of main\<close>

text \<open>\<^verbatim>\<open>strconv.Itoa\<close>, also the verb \<^verbatim>\<open>%d\<close> of \<^verbatim>\<open>fmt.Sprintf\<close>.\<close>

function decimal_digits :: "int \<Rightarrow> string" where
  "decimal_digits n =
     (if n < 10 then [''0123456789'' ! nat n]
      else decimal_digits (n div 10) @ [''0123456789'' ! nat (n mod 10)])"
  by pat_completeness auto
termination
  by (relation "measure nat") auto

definition Itoa :: "goint \<Rightarrow> string" where
  "Itoa i =
     (if sint i < 0 then CHR ''-'' # decimal_digits (- sint i) else decimal_digits (sint i))"

text \<open>The names of a candidate (lines 301 to 307), from the id of the Drive file and
  the angle.\<close>

definition tiffFile_of :: "string \<Rightarrow> string" where
  "tiffFile_of fileId = fileId @ ''.tiff''"

definition ocrInput_of :: "string \<Rightarrow> goint \<Rightarrow> string" where
  "ocrInput_of fileId angle =
     (if angle = 0 then tiffFile_of fileId
      else tiffFile_of fileId @ ''-r'' @ Itoa angle @ ''.tiff'')"

definition outputPrefixR_of :: "string \<Rightarrow> goint \<Rightarrow> string" where
  "outputPrefixR_of fileId angle =
     (if angle = 0 then ''ocr-'' @ fileId else ''ocr-'' @ fileId @ ''-r'' @ Itoa angle)"

text \<open>
  One pass of the loop over \<^verbatim>\<open>rotations\<close> up to the result of \<^verbatim>\<open>ocrImage\<close>
  (lines 301 to 315). \<open>convert\<close> tells whether ImageMagick succeeds for an angle,
  \<open>ocr\<close> is the call of \<^verbatim>\<open>ocrImage\<close> on the input file and the output prefix.
\<close>

definition candidate ::
  "(goint \<Rightarrow> bool) \<Rightarrow> (string \<Rightarrow> string \<Rightarrow> error + (string \<times> real)) \<Rightarrow> string \<Rightarrow> goint
     \<Rightarrow> error + (string \<times> real)" where
  "candidate convert ocr fileId angle =
     (if angle \<noteq> 0 \<and> \<not> convert angle then Inl LogFatal
      else ocr (ocrInput_of fileId angle) (outputPrefixR_of fileId angle))"

text \<open>The arguments of that call; \<^verbatim>\<open>ocrImage\<close> logs them when it starts.\<close>

definition call_of :: "string \<Rightarrow> goint \<Rightarrow> string \<times> string" where
  "call_of fileId angle = (ocrInput_of fileId angle, outputPrefixR_of fileId angle)"

text \<open>
  The loop (lines 300 to 325). Its state is the pair of variables \<^verbatim>\<open>title\<close> and
  \<^verbatim>\<open>outputPrefix\<close>, and the calls of \<^verbatim>\<open>ocrImage\<close> made so far, oldest first.
\<close>

type_synonym loop_state = "string \<times> string \<times> (string \<times> string) list"

fun rotations_loop ::
  "(goint \<Rightarrow> bool) \<Rightarrow> (string \<Rightarrow> string \<Rightarrow> error + (string \<times> real)) \<Rightarrow> string
     \<Rightarrow> goint list \<Rightarrow> loop_state \<Rightarrow> error + loop_state" where
  "rotations_loop convert ocr fileId [] (title, outputPrefix, calls) =
     Inr (title, outputPrefix, calls)"
| "rotations_loop convert ocr fileId (angle # rest) (title, outputPrefix, calls) =
     (case candidate convert ocr fileId angle of
        Inl e \<Rightarrow> Inl e
      | Inr (titleR, confScore) \<Rightarrow>
          (let goodEnough = (confScore > 70);
               best = (if goodEnough \<or> length title = 0
                       then (titleR, outputPrefixR_of fileId angle)
                       else (title, outputPrefix));
               calls' = calls @ [call_of fileId angle]
           in if goodEnough then Inr (fst best, snd best, calls')
              else rotations_loop convert ocr fileId rest (fst best, snd best, calls')))"

text \<open>The candidate angles when the name of the file asks for none.\<close>

definition rotations :: "goint list" where
  "rotations = [0, 180, 90, 270]"

text \<open>The loop as \<^verbatim>\<open>main\<close> runs it for one file: both variables start empty.\<close>

definition rotate_and_ocr ::
  "unicode \<Rightarrow> (goint \<Rightarrow> bool) \<Rightarrow> (string \<Rightarrow> string \<Rightarrow> ocr_files) \<Rightarrow> string
     \<Rightarrow> goint list \<Rightarrow> error + loop_state" where
  "rotate_and_ocr U convert world fileId angles =
     rotations_loop convert (ocrImage U world) fileId angles ([], [], [])"

section \<open>The title loop, word by word\<close>

text \<open>
  What one word does to the state of the loop. \<open>letters_of\<close> is the final value of
  \<^verbatim>\<open>letters\<close> for a text, \<open>title_part\<close> what a word adds to the title and
  \<open>samples_of\<close> what it adds to \<^verbatim>\<open>confidences\<close>; \<open>walked\<close> counts the words the
  loop gets through before its \<^verbatim>\<open>break\<close> or the end of the list.
\<close>

definition letters_of :: "unicode \<Rightarrow> string \<Rightarrow> nat" where
  "letters_of U s = length (filter (\<lambda>r. IsLetter U r \<or> IsDigit U r) (range_runes s))"

definition title_part :: "unicode \<Rightarrow> Word \<Rightarrow> string" where
  "title_part U w =
     (if 0 < letters_of U (text w) \<and> 70 <s confidence w then text w @ '' '' else [])"

definition samples_of :: "unicode \<Rightarrow> Word \<Rightarrow> goint list" where
  "samples_of U w = replicate (letters_of U (text w)) (confidence w)"

fun walked :: "unicode \<Rightarrow> Word list \<Rightarrow> string \<Rightarrow> nat" where
  "walked U [] t = 0"
| "walked U (w # ws) t =
     (if 80 < length (t @ title_part U w) then 1
      else Suc (walked U ws (t @ title_part U w)))"

section \<open>Notions of the specification\<close>

text \<open>
  The pixel height of a bounding box as the specification describes it: of the four
  numbers left, top, right and bottom of a \<^verbatim>\<open>bbox\<close> property, the bottom less the top.
  The program computes nothing of the kind; the definition is there to compare the
  \<open>height\<close> of a word with it.
\<close>

definition spec_bbox_pixel_height :: "string \<Rightarrow> int" where
  "spec_bbox_pixel_height bbox =
     (let fields = strings_Split bbox CHR '' ''
      in sint (fst (Atoi (fields ! 3))) - sint (fst (Atoi (fields ! 1))))"

text \<open>The arithmetic mean of the specification: 0 when there is no sample.\<close>

definition arithmetic_mean :: "int list \<Rightarrow> real" where
  "arithmetic_mean xs =
     (if xs = [] then 0 else real_of_int (sum_list xs) / real (length xs))"

text \<open>The confidence of a candidate as the specification words it: the mean over every
  letter and digit of every parsed word of the confidence of that word.\<close>

definition spec_confidence :: "unicode \<Rightarrow> Word list \<Rightarrow> real" where
  "spec_confidence U words =
     arithmetic_mean (map sint (concat (map (samples_of U) words)))"

text \<open>The walk over the sorted words as the specification words it: the title is
  measured in characters (code points), where the program takes \<^verbatim>\<open>len(title)\<close>, the
  number of bytes.\<close>

fun spec_title_walk :: "unicode \<Rightarrow> Word list \<Rightarrow> string \<Rightarrow> string" where
  "spec_title_walk U [] title = title"
| "spec_title_walk U (word # rest) title =
     (let title' = (if 0 < letters_of U (text word) \<and> 70 <s confidence word
                    then title @ text word @ '' '' else title)
      in if length (range_runes title') > 80 then title'
         else spec_title_walk U rest title')"

section \<open>Inputs to run the model on\<close>

text \<open>A stand-in for \<^verbatim>\<open>ocrImage\<close> that answers from a table of results by output
  prefix, to run the loop on given titles and confidences.\<close>

definition ocr_table ::
  "(string \<times> string \<times> real) list \<Rightarrow> string \<Rightarrow> string \<Rightarrow> error + (string \<times> real)" where
  "ocr_table results tiffFile outputPrefix =
     (case map_of results outputPrefix of None \<Rightarrow> Inl LogFatal | Some r \<Rightarrow> Inr r)"

text \<open>A word record with a given text and confidence, to run the title loop on given
  words.\<close>

definition word_of :: "string \<Rightarrow> goint \<Rightarrow> Word" where
  "word_of t c =
     \<lparr> text = t, fontSize = 12, confidence = c, isStrong = False, isEm = False,
       height = 200, weight = 120, props = [] \<rparr>"

text \<open>Answers of the outside world to run \<^verbatim>\<open>ocrImage\<close> on: every step succeeds and
  the document is the given one (\<open>None\<close>: the parser returns an error); a document of
  one element with a given id and one word below it.\<close>

definition files_with :: "document option \<Rightarrow> ocr_files" where
  "files_with d =
     \<lparr> tesseract_ok = True, hocr_opens = True, hocr_document = d,
       title_meta_creates = True \<rparr>"

definition page_of_one_word :: "string \<Rightarrow> document" where
  "page_of_one_word pid =
     [\<lparr> elem_id = pid, ocrx_words =
         [(0, \<lparr> attr_title = Some ''bbox 100 200 300 260; x_wconf 95; x_fsize 12'',
                Text = ''Rechnung'', strong = 0, em = 0 \<rparr>)] \<rparr>]"

section \<open>Properties of the rotation loop\<close>

lemma loop_fatal:
  "candidate convert ocr fileId a = Inl e \<Longrightarrow>
     rotations_loop convert ocr fileId (a # rest) (title, p, calls) = Inl e"
  by simp

lemma loop_good:
  "candidate convert ocr fileId a = Inr (t, c) \<Longrightarrow> 70 < c \<Longrightarrow>
     rotations_loop convert ocr fileId (a # rest) (title, p, calls) =
       Inr (t, outputPrefixR_of fileId a, calls @ [call_of fileId a])"
  by (simp add: Let_def)

lemma loop_low:
  "candidate convert ocr fileId a = Inr (t, c) \<Longrightarrow> \<not> 70 < c \<Longrightarrow>
     rotations_loop convert ocr fileId (a # rest) (title, p, calls) =
       rotations_loop convert ocr fileId rest
         (if title = [] then t else title,
          if title = [] then outputPrefixR_of fileId a else p,
          calls @ [call_of fileId a])"
  by (simp add: Let_def)

declare rotations_loop.simps(2) [simp del]

lemma loop_keeps_title:
  assumes "title \<noteq> []"
    and "\<forall>b\<in>set angles. \<exists>t c. candidate convert ocr fileId b = Inr (t, c) \<and> \<not> 70 < c"
  shows "rotations_loop convert ocr fileId angles (title, p, calls) =
           Inr (title, p, calls @ map (call_of fileId) angles)"
  using assms(2)
proof (induction angles arbitrary: calls)
  case Nil
  then show ?case by simp
next
  case (Cons a angles)
  from Cons.prems obtain t c
    where "candidate convert ocr fileId a = Inr (t, c)" and "\<not> 70 < c"
    by auto
  then have "rotations_loop convert ocr fileId (a # angles) (title, p, calls) =
      rotations_loop convert ocr fileId angles (title, p, calls @ [call_of fileId a])"
    using assms(1) by (simp add: loop_low)
  then show ?case using Cons by simp
qed

lemma loop_empty_titles:
  assumes "\<forall>b\<in>set pre. \<exists>c. candidate convert ocr fileId b = Inr ([], c) \<and> \<not> 70 < c"
  shows "rotations_loop convert ocr fileId (pre @ rest) ([], p, calls) =
           rotations_loop convert ocr fileId rest
             ([], if pre = [] then p else outputPrefixR_of fileId (last pre),
              calls @ map (call_of fileId) pre)"
  using assms
proof (induction pre arbitrary: p calls)
  case Nil
  then show ?case by simp
next
  case (Cons a pre)
  from Cons.prems obtain c
    where "candidate convert ocr fileId a = Inr ([], c)" and "\<not> 70 < c"
    by auto
  then have "rotations_loop convert ocr fileId ((a # pre) @ rest) ([], p, calls) =
      rotations_loop convert ocr fileId (pre @ rest)
        ([], outputPrefixR_of fileId a, calls @ [call_of fileId a])"
    by (simp add: loop_low)
  then show ?case using Cons by simp
qed

lemma loop_skips_low:
  assumes "\<forall>b\<in>set pre. \<exists>t c. candidate convert ocr fileId b = Inr (t, c) \<and> \<not> 70 < c"
  shows "\<exists>title' p'.
           rotations_loop convert ocr fileId (pre @ rest) (title, p, calls) =
           rotations_loop convert ocr fileId rest
             (title', p', calls @ map (call_of fileId) pre)"
  using assms
proof (induction pre arbitrary: title p calls)
  case Nil
  then show ?case by auto
next
  case (Cons a pre)
  from Cons.prems obtain t c
    where c: "candidate convert ocr fileId a = Inr (t, c)" "\<not> 70 < c"
    by auto
  from Cons.prems
  have "\<forall>b\<in>set pre. \<exists>t c. candidate convert ocr fileId b = Inr (t, c) \<and> \<not> 70 < c"
    by simp
  from Cons.IH [OF this] obtain title' p' where
    "rotations_loop convert ocr fileId (pre @ rest)
       (if title = [] then t else title,
        if title = [] then outputPrefixR_of fileId a else p,
        calls @ [call_of fileId a]) =
     rotations_loop convert ocr fileId rest
       (title', p', (calls @ [call_of fileId a]) @ map (call_of fileId) pre)"
    by blast
  then show ?case using loop_low [OF c] by auto
qed

text \<open>
  Claim C2. When a candidate's confidence is above 70, the loop ends at it with that
  candidate's title and output prefix, whatever the state was: the candidates before it
  (each completed, none above 70) and this one are the only calls of \<^verbatim>\<open>ocrImage\<close>,
  and no angle after it is tried.
\<close>

theorem good_enough_halts:
  assumes "\<forall>b\<in>set pre. \<exists>t c. candidate convert ocr fileId b = Inr (t, c) \<and> \<not> 70 < c"
    and "candidate convert ocr fileId a = Inr (t, c)"
    and "70 < c"
  shows "rotations_loop convert ocr fileId (pre @ a # post) (title, p, calls) =
           Inr (t, outputPrefixR_of fileId a, calls @ map (call_of fileId) (pre @ [a]))"
proof -
  from loop_skips_low [OF assms(1)] obtain title' p' where
    "rotations_loop convert ocr fileId (pre @ a # post) (title, p, calls) =
       rotations_loop convert ocr fileId (a # post)
         (title', p', calls @ map (call_of fileId) pre)"
    by blast
  then show ?thesis using loop_good [OF assms(2,3)] by simp
qed

theorem good_enough_halts_witness:
  "candidate (\<lambda>_. True)
     (ocr_table [(''ocr-X'', ''A'', 40), (''ocr-X-r180'', ''B'', 85),
                 (''ocr-X-r90'', ''C'', 95), (''ocr-X-r270'', ''D'', 30)]) ''X'' 0
     = Inr (''A'', 40)
   \<and> candidate (\<lambda>_. True)
     (ocr_table [(''ocr-X'', ''A'', 40), (''ocr-X-r180'', ''B'', 85),
                 (''ocr-X-r90'', ''C'', 95), (''ocr-X-r270'', ''D'', 30)]) ''X'' 180
     = Inr (''B'', 85)
   \<and> rotations_loop (\<lambda>_. True)
     (ocr_table [(''ocr-X'', ''A'', 40), (''ocr-X-r180'', ''B'', 85),
                 (''ocr-X-r90'', ''C'', 95), (''ocr-X-r270'', ''D'', 30)])
     ''X'' [0, 180, 90, 270] ([], [], [])
     = Inr (''B'', ''ocr-X-r180'',
            [(''X.tiff'', ''ocr-X''), (''X.tiff-r180.tiff'', ''ocr-X-r180'')])"
  using good_enough_halts [of "[0]" "\<lambda>_. True"
      "ocr_table [(''ocr-X'', ''A'', 40), (''ocr-X-r180'', ''B'', 85),
                  (''ocr-X-r90'', ''C'', 95), (''ocr-X-r270'', ''D'', 30)]"
      "''X''" 180 "''B''" 85 "[90, 270]" "[]" "[]" "[]"]
  by (simp add: candidate_def ocr_table_def outputPrefixR_of_def ocrInput_of_def
      tiffFile_of_def call_of_def Itoa_def)

text \<open>
  Claim C3. When every candidate completes and none has a confidence above 70, all of
  them are tried in order, and the result is the title and the output prefix of the
  first candidate whose title is not empty: the candidates after it do not replace it,
  whatever their confidence.
\<close>

theorem first_titled_stays:
  assumes "\<forall>b\<in>set pre. \<exists>c. candidate convert ocr fileId b = Inr ([], c) \<and> \<not> 70 < c"
    and "candidate convert ocr fileId a = Inr (t, c)"
    and "\<not> 70 < c"
    and "t \<noteq> []"
    and "\<forall>b\<in>set post. \<exists>t' c'. candidate convert ocr fileId b = Inr (t', c') \<and> \<not> 70 < c'"
  shows "rotations_loop convert ocr fileId (pre @ a # post) ([], [], []) =
           Inr (t, outputPrefixR_of fileId a, map (call_of fileId) (pre @ a # post))"
proof -
  have "rotations_loop convert ocr fileId (pre @ a # post) ([], [], []) =
      rotations_loop convert ocr fileId (a # post)
        ([], if pre = [] then [] else outputPrefixR_of fileId (last pre),
         map (call_of fileId) pre)"
    using loop_empty_titles [OF assms(1), of "a # post" "[]" "[]"] by simp
  also have "\<dots> = rotations_loop convert ocr fileId post
      (t, outputPrefixR_of fileId a, map (call_of fileId) pre @ [call_of fileId a])"
    using loop_low [OF assms(2,3)] by simp
  also have "\<dots> = Inr (t, outputPrefixR_of fileId a,
      (map (call_of fileId) pre @ [call_of fileId a]) @ map (call_of fileId) post)"
    using loop_keeps_title [OF assms(4,5)] by simp
  finally show ?thesis by simp
qed

theorem first_titled_stays_witness:
  "rotations_loop (\<lambda>_. True)
     (ocr_table [(''ocr-X'', ''A'', 40), (''ocr-X-r180'', ''B'', 55),
                 (''ocr-X-r90'', ''C'', 60), (''ocr-X-r270'', ''D'', 30)])
     ''X'' [0, 180, 90, 270] ([], [], [])
     = Inr (''A'', ''ocr-X'',
            [(''X.tiff'', ''ocr-X''), (''X.tiff-r180.tiff'', ''ocr-X-r180''),
             (''X.tiff-r90.tiff'', ''ocr-X-r90''), (''X.tiff-r270.tiff'', ''ocr-X-r270'')])
   \<and> rotations_loop (\<lambda>_. True)
     (ocr_table [(''ocr-X'', [], 40), (''ocr-X-r180'', ''B'', 55),
                 (''ocr-X-r90'', ''C'', 60), (''ocr-X-r270'', ''D'', 30)])
     ''X'' [0, 180, 90, 270] ([], [], [])
     = Inr (''B'', ''ocr-X-r180'',
            [(''X.tiff'', ''ocr-X''), (''X.tiff-r180.tiff'', ''ocr-X-r180''),
             (''X.tiff-r90.tiff'', ''ocr-X-r90''), (''X.tiff-r270.tiff'', ''ocr-X-r270'')])"
  using first_titled_stays [of "[]" "\<lambda>_. True"
      "ocr_table [(''ocr-X'', ''A'', 40), (''ocr-X-r180'', ''B'', 55),
                  (''ocr-X-r90'', ''C'', 60), (''ocr-X-r270'', ''D'', 30)]"
      "''X''" 0 "''A''" 40 "[180, 90, 270]"]
    first_titled_stays [of "[0]" "\<lambda>_. True"
      "ocr_table [(''ocr-X'', [], 40), (''ocr-X-r180'', ''B'', 55),
                  (''ocr-X-r90'', ''C'', 60), (''ocr-X-r270'', ''D'', 30)]"
      "''X''" 180 "''B''" 55 "[90, 270]"]
  by (simp add: candidate_def ocr_table_def outputPrefixR_of_def ocrInput_of_def
      tiffFile_of_def call_of_def Itoa_def)

text \<open>
  Claim C10. When every candidate completes with an empty title and a confidence that
  is not above 70, each one replaces the output prefix in turn: the loop ends with the
  empty title and the output prefix of the last angle of the list.
\<close>

theorem all_empty_last_prefix:
  assumes "\<forall>b\<in>set angles. \<exists>c. candidate convert ocr fileId b = Inr ([], c) \<and> \<not> 70 < c"
    and "angles \<noteq> []"
  shows "rotations_loop convert ocr fileId angles ([], [], []) =
           Inr ([], outputPrefixR_of fileId (last angles), map (call_of fileId) angles)"
  using loop_empty_titles [OF assms(1), of "[]" "[]" "[]"] assms(2) by simp

theorem all_empty_last_prefix_witness:
  "rotations_loop (\<lambda>_. True)
     (ocr_table [(''ocr-X'', [], 0), (''ocr-X-r180'', [], 12),
                 (''ocr-X-r90'', [], 70), (''ocr-X-r270'', [], 3)])
     ''X'' rotations ([], [], [])
     = Inr ([], ''ocr-X-r270'',
            [(''X.tiff'', ''ocr-X''), (''X.tiff-r180.tiff'', ''ocr-X-r180''),
             (''X.tiff-r90.tiff'', ''ocr-X-r90''), (''X.tiff-r270.tiff'', ''ocr-X-r270'')])"
  using all_empty_last_prefix [of rotations "\<lambda>_. True"
      "ocr_table [(''ocr-X'', [], 0), (''ocr-X-r180'', [], 12),
                  (''ocr-X-r90'', [], 70), (''ocr-X-r270'', [], 3)]" "''X''"]
  by (simp add: rotations_def candidate_def ocr_table_def outputPrefixR_of_def ocrInput_of_def
      tiffFile_of_def call_of_def Itoa_def)

section \<open>Properties of the word scorer and of the sort\<close>

lemma sint_weight_no_overflow:
  fixes fs :: goint
  assumes "- (2 ^ 59) \<le> sint fs" and "sint fs < 2 ^ 59"
    and "a = 0 \<or> a = 50" and "b = 0 \<or> b = 100"
  shows "sint (fs * 10 - word_of_int a - word_of_int b) = sint fs * 10 - a - b"
proof -
  have "fs * 10 - word_of_int a - word_of_int b = (word_of_int (sint fs * 10 - a - b) :: goint)"
    by simp
  moreover have "- (2 ^ 63) \<le> sint fs * 10 - a - b" and "sint fs * 10 - a - b < 2 ^ 63"
    using assms by auto
  ultimately show ?thesis
    by (simp only: sint_sbintrunc') (simp add: signed_take_bit_int_eq_self)
qed

text \<open>
  Claim C5. For every word element that parses, the weight is \<open>fontSize * 10\<close>, less 50
  when the height is above 1400, less 100 when the text of the word is on the stop
  list, in Go's arithmetic on \<^verbatim>\<open>int\<close>; both deductions apply together. For a font size
  between \<open>-2^59\<close> and \<open>2^59\<close> nothing wraps around and the same holds of the values as
  integers. The marks of emphasis change the two flags of the record and nothing else,
  so the weight depends on the font size, the height and the text alone.
\<close>

theorem weight_of_parsed_word:
  assumes "parse_word s = Inr w"
  shows "weight w = fontSize w * 10 - (if 1400 <s height w then 50 else 0)
                      - (if wordStoplist (text w) then 100 else 0)
         \<and> (- (2 ^ 59) \<le> sint (fontSize w) \<and> sint (fontSize w) < 2 ^ 59 \<longrightarrow>
              sint (weight w) = sint (fontSize w) * 10
                - (if 1400 < sint (height w) then 50 else 0)
                - (if wordStoplist (text w) then 100 else 0))
         \<and> parse_word (s\<lparr>strong := n, em := k\<rparr>) = Inr (w\<lparr>isStrong := 0 < n, isEm := 0 < k\<rparr>)"
proof (intro conjI impI)
  show f: "weight w = fontSize w * 10 - (if 1400 <s height w then 50 else 0)
                      - (if wordStoplist (text w) then 100 else 0)"
    using assms by (auto simp: parse_word_def Let_def split: sum.splits)
  show "parse_word (s\<lparr>strong := n, em := k\<rparr>) = Inr (w\<lparr>isStrong := 0 < n, isEm := 0 < k\<rparr>)"
    using assms by (auto simp: parse_word_def AttrOr_title_def Let_def split: sum.splits)
  assume b: "- (2 ^ 59) \<le> sint (fontSize w) \<and> sint (fontSize w) < 2 ^ 59"
  have "weight w = fontSize w * 10 - word_of_int (if 1400 < sint (height w) then 50 else 0)
                      - word_of_int (if wordStoplist (text w) then 100 else 0)"
    by (subst f) (simp add: word_sless_alt)
  then show "sint (weight w) = sint (fontSize w) * 10
                - (if 1400 < sint (height w) then 50 else 0)
                - (if wordStoplist (text w) then 100 else 0)"
    using b sint_weight_no_overflow [of "fontSize w" "if 1400 < sint (height w) then 50 else 0"
        "if wordStoplist (text w) then 100 else 0"]
    by simp
qed

theorem weight_of_parsed_word_witness:
  "parse_word \<lparr> attr_title = Some ''bbox 100 1600 300 1660; x_wconf 95; x_fsize 12'',
                 Text = ''Herr'', strong = 1, em = 0 \<rparr>
     = Inr \<lparr> text = ''Herr'', fontSize = 12, confidence = 95, isStrong = True, isEm = False,
             height = 1600, weight = - 30,
             props = [(''bbox'', ''100 1600 300 1660''), (''x_wconf'', ''95''), (''x_fsize'', ''12'')] \<rparr>
   \<and> (- 30 :: goint) = 12 * 10 - 50 - 100
   \<and> sint (- 30 :: goint) = 12 * 10 - 50 - 100
   \<and> parse_word \<lparr> attr_title = Some ''bbox 100 1600 300 1660; x_wconf 95; x_fsize 12'',
                 Text = ''Herr'', strong = 0, em = 2 \<rparr>
     = Inr \<lparr> text = ''Herr'', fontSize = 12, confidence = 95, isStrong = False, isEm = True,
             height = 1600, weight = - 30,
             props = [(''bbox'', ''100 1600 300 1660''), (''x_wconf'', ''95''), (''x_fsize'', ''12'')] \<rparr>"
proof -
  have h: "parse_word \<lparr> attr_title = Some ''bbox 100 1600 300 1660; x_wconf 95; x_fsize 12'',
                 Text = ''Herr'', strong = 1, em = 0 \<rparr>
     = Inr \<lparr> text = ''Herr'', fontSize = 12, confidence = 95, isStrong = True, isEm = False,
             height = 1600, weight = - 30,
             props = [(''bbox'', ''100 1600 300 1660''), (''x_wconf'', ''95''), (''x_fsize'', ''12'')] \<rparr>"
    by code_simp
  show ?thesis
    using h weight_of_parsed_word [OF h, where n = 0 and k = 2] by simp
qed

lemma mset_insert_stable: "mset (insert_stable lt x ys) = add_mset x (mset ys)"
  by (induction ys) auto

lemma set_insert_stable: "set (insert_stable lt x ys) = insert x (set ys)"
  by (induction ys) auto

lemma sorted_insert_stable:
  "sorted_wrt (\<lambda>a b. sint (weight b) \<le> sint (weight a)) ys \<Longrightarrow>
   sorted_wrt (\<lambda>a b. sint (weight b) \<le> sint (weight a))
     (insert_stable (Reverse ByWeight_Less) x ys)"
proof (induction ys)
  case Nil
  then show ?case by simp
next
  case (Cons y ys)
  show ?case
  proof (cases "weight x <s weight y")
    case True
    then show ?thesis
      using Cons by (auto simp: Reverse_def ByWeight_Less_def set_insert_stable word_sless_alt)
  next
    case False
    then have "sint (weight y) \<le> sint (weight x)"
      by (simp add: word_sless_alt)
    then show ?thesis
      using Cons.prems False by (fastforce simp: Reverse_def ByWeight_Less_def)
  qed
qed

lemma filter_insert_stable:
  "filter (\<lambda>w. weight w = v) (insert_stable (Reverse ByWeight_Less) x ys) =
     (if weight x = v then x # filter (\<lambda>w. weight w = v) ys
      else filter (\<lambda>w. weight w = v) ys)"
  by (induction ys) (auto simp: Reverse_def ByWeight_Less_def)

lemma sort_Stable_by_weight:
  "sorted_wrt (\<lambda>a b. sint (weight b) \<le> sint (weight a))
     (sort_Stable (Reverse ByWeight_Less) words)
   \<and> mset (sort_Stable (Reverse ByWeight_Less) words) = mset words
   \<and> (\<forall>v. filter (\<lambda>w. weight w = v) (sort_Stable (Reverse ByWeight_Less) words)
          = filter (\<lambda>w. weight w = v) words)"
proof (intro conjI allI)
  show "sorted_wrt (\<lambda>a b. sint (weight b) \<le> sint (weight a))
     (sort_Stable (Reverse ByWeight_Less) words)"
    by (induction words) (simp_all add: sort_Stable_def sorted_insert_stable)
  show "mset (sort_Stable (Reverse ByWeight_Less) words) = mset words"
    by (induction words) (simp_all add: sort_Stable_def mset_insert_stable)
  show "filter (\<lambda>w. weight w = v) (sort_Stable (Reverse ByWeight_Less) words)
          = filter (\<lambda>w. weight w = v) words" for v
    by (induction words) (simp_all add: sort_Stable_def filter_insert_stable)
qed

section \<open>Properties of the markup parser\<close>

lemma index_SplitN2_0: "index (strings_SplitN2 x sep) 0 = Inr (hd (strings_SplitN2 x sep))"
  by (simp add: index_def strings_SplitN2_def)

lemma index_SplitN2_1:
  "index (strings_SplitN2 x sep) (Suc 0) =
     (if sep \<in> set x then Inr (tl (dropWhile (\<lambda>c. c \<noteq> sep) x)) else Inl IndexOutOfRange)"
  by (simp add: index_def strings_SplitN2_def)

lemma props_loop_Inr:
  "(\<exists>m'. props_loop ps m = Inr m') \<longleftrightarrow>
     (\<forall>prop\<in>set ps. CHR '' '' \<in> set (strings_TrimLeft prop '' ''))"
  by (induction ps arbitrary: m) (auto simp: Let_def index_SplitN2_0 index_SplitN2_1)

lemma props_loop_Inl: "props_loop ps m = Inl e \<Longrightarrow> e = IndexOutOfRange"
  by (induction ps arbitrary: m)
     (auto simp: Let_def index_SplitN2_0 index_SplitN2_1 split: if_splits)

lemma props_loop_keys:
  "props_loop ps m = Inr m' \<Longrightarrow> dom (map_of m') = dom (map_of m) \<union> prop_name ` set ps"
proof (induction ps arbitrary: m)
  case Nil
  then show ?case by simp
next
  case (Cons q ps)
  from Cons.prems obtain v where
    "props_loop ps (AList.update (prop_name q) v m) = Inr m'"
    by (auto simp: Let_def index_SplitN2_0 index_SplitN2_1 prop_name_def split: if_splits)
  from Cons.IH [OF this] show ?case
    by (auto simp: update_conv')
qed

lemma length_strings_Split: "length (strings_Split x sep) = Suc (count_list x sep)"
  by (induction x) (auto split: list.splits)

lemma count_list_pos: "0 < count_list xs x \<longleftrightarrow> x \<in> set xs"
  using count_list_0_iff [of xs x] by auto

lemma index_Split_1:
  "index (strings_Split x sep) (Suc 0) =
     (if sep \<in> set x then Inr (strings_Split x sep ! 1) else Inl IndexOutOfRange)"
  by (auto simp: index_def length_strings_Split count_list_0_iff)

lemma parse_word_Inr:
  "parse_word s = Inr w \<longleftrightarrow>
     (\<exists>m. props_loop (strings_Split (AttrOr_title s []) CHR '';'') [] = Inr m
        \<and> CHR '' '' \<in> set (lookup m ''bbox'')
        \<and> w = \<lparr> text = Text s, fontSize = fst (Atoi (lookup m ''x_fsize'')),
                 confidence = fst (Atoi (lookup m ''x_wconf'')),
                 isStrong = (strong s > 0), isEm = (em s > 0),
                 height = fst (Atoi (strings_Split (lookup m ''bbox'') CHR '' '' ! 1)),
                 weight = fst (Atoi (lookup m ''x_fsize'')) * 10
                    - (if 1400 <s fst (Atoi (strings_Split (lookup m ''bbox'') CHR '' '' ! 1)) then 50 else 0)
                    - (if wordStoplist (Text s) then 100 else 0),
                 props = m \<rparr>)"
  by (auto simp: parse_word_def Let_def index_Split_1 split: sum.splits)

lemma parse_word_Inl: "parse_word s = Inl e \<Longrightarrow> e = IndexOutOfRange"
  by (auto simp: parse_word_def Let_def index_Split_1 split: sum.splits if_splits dest: props_loop_Inl)

lemma foldl_digits_ge:
  "0 \<le> (n :: int) \<Longrightarrow> list_all is_decimal ds \<Longrightarrow>
     n \<le> foldl (\<lambda>n c. n * 10 + (of_char c - 48)) n ds"
proof (induction ds arbitrary: n)
  case Nil
  then show ?case by simp
next
  case (Cons c ds)
  then have d: "0 \<le> (of_char c :: int) - 48"
    by (simp add: is_decimal_def)
  with Cons.prems have "n \<le> n * 10 + (of_char c - 48)" and "0 \<le> n * 10 + (of_char c - 48)"
    by auto
  moreover from Cons.prems have "list_all is_decimal ds"
    by simp
  ultimately show ?case
    using Cons.IH [of "n * 10 + (of_char c - 48)"] by simp
qed

lemma ParseUint_loop_eq:
  assumes "0 \<le> n" and "n < 18446744073709551616"
  shows "ParseUint_loop cs n =
     (if 18446744073709551616 \<le> foldl (\<lambda>n c. n * 10 + (of_char c - 48)) n (takeWhile is_decimal cs)
      then (18446744073709551615, Some ErrRange)
      else if \<not> list_all is_decimal cs then (0, Some ErrSyntax)
      else (foldl (\<lambda>n c. n * 10 + (of_char c - 48)) n cs, None))"
  using assms
proof (induction cs arbitrary: n)
  case Nil
  then show ?case by simp
next
  case (Cons c cs)
  show ?case
  proof (cases "is_decimal c")
    case False
    then show ?thesis using Cons.prems by simp
  next
    case True
    let ?n1 = "n * 10 + (of_char c - 48)"
    from True have d: "0 \<le> (of_char c :: int) - 48" "(of_char c :: int) - 48 \<le> 9"
      by (simp_all add: is_decimal_def)
    have ge: "?n1 \<le> foldl (\<lambda>n c. n * 10 + (of_char c - 48)) ?n1 (takeWhile is_decimal cs)"
      using d Cons.prems(1)
      by (intro foldl_digits_ge) (auto simp: list_all_iff dest: set_takeWhileD)
    show ?thesis
    proof (cases "1844674407370955162 \<le> n \<or> 18446744073709551615 < ?n1")
      case True
      then have "18446744073709551616 \<le> ?n1"
        using d by auto
      with ge True \<open>is_decimal c\<close> show ?thesis
        by (auto simp: Let_def)
    next
      case False
      then have "0 \<le> ?n1" and "?n1 < 18446744073709551616"
        using d Cons.prems(1) by auto
      from Cons.IH [OF this] False \<open>is_decimal c\<close> show ?thesis
        by (simp add: Let_def)
    qed
  qed
qed

lemma unsigned_part_eq:
  "s \<noteq> [] \<Longrightarrow>
     (if hd s = CHR ''+'' \<or> hd s = CHR ''-'' then tl s else s) = unsigned_part s"
  by (cases s) (auto simp: unsigned_part_def)

lemma Atoi_syntax_error:
  assumes "\<not> numeric s" and "decimal_value (leading_digits s) < 18446744073709551616"
  shows "fst (Atoi s) = 0"
proof (cases "unsigned_part s = []")
  case True
  then show ?thesis
    by (cases "s = []") (simp_all add: Atoi_def ParseInt_def ParseUint_def unsigned_part_eq)
next
  case False
  then have s: "s \<noteq> []"
    by (auto simp: unsigned_part_def)
  from assms(1) False have "\<not> list_all is_decimal (unsigned_part s)"
    by (simp add: numeric_def)
  with assms(2) False have "ParseUint (unsigned_part s) = (0, Some ErrSyntax)"
    using ParseUint_loop_eq [of 0 "unsigned_part s"]
    by (simp add: ParseUint_def decimal_value_def leading_digits_def)
  with s show ?thesis
    by (simp add: Atoi_def ParseInt_def unsigned_part_eq)
qed

lemma Atoi_range_error:
  assumes "18446744073709551616 \<le> decimal_value (leading_digits s)"
  shows "fst (Atoi s) =
     (if hd s = CHR ''-'' then - 9223372036854775808 else 9223372036854775807)"
proof -
  from assms have u: "unsigned_part s \<noteq> []"
    by (auto simp: leading_digits_def decimal_value_def)
  then have s: "s \<noteq> []"
    by (auto simp: unsigned_part_def)
  from assms u have "ParseUint (unsigned_part s) = (18446744073709551615, Some ErrRange)"
    using ParseUint_loop_eq [of 0 "unsigned_part s"]
    by (simp add: ParseUint_def decimal_value_def leading_digits_def)
  with s show ?thesis
    by (simp add: Atoi_def ParseInt_def unsigned_part_eq)
qed

text \<open>
  Claim C8, as the program has it. A word element parses exactly when every property
  of its \<^verbatim>\<open>title\<close> attribute has a space after its name and the value of \<^verbatim>\<open>bbox\<close>
  has a space in it (two fields at least); any other element ends the process with the
  panic of an index out of range. When the element parses, \<^verbatim>\<open>x_fsize\<close> gives the font
  size 0 when it is missing, and when its value is no numeral and does not start (after
  an optional sign) with decimal digits whose value is above \<open>2^64 - 1\<close>; a value that
  starts with such digits gives the greatest \<^verbatim>\<open>int\<close>, or the least one after a minus
  sign, whatever follows the digits. The same holds of \<^verbatim>\<open>x_wconf\<close> and the confidence.
  A property is missing from the map of the word when no property of the attribute has
  its name.
\<close>

theorem parse_word_total_on_well_formed:
  "((\<exists>w. parse_word s = Inr w) \<longleftrightarrow>
      (\<forall>prop\<in>set (strings_Split (AttrOr_title s []) CHR '';'').
          CHR '' '' \<in> set (strings_TrimLeft prop '' ''))
      \<and> (\<exists>m. props_loop (strings_Split (AttrOr_title s []) CHR '';'') [] = Inr m
             \<and> CHR '' '' \<in> set (lookup m ''bbox'')))
   \<and> ((\<nexists>w. parse_word s = Inr w) \<longrightarrow> parse_word s = Inl IndexOutOfRange)
   \<and> (\<forall>w. parse_word s = Inr w \<longrightarrow>
         (map_of (props w) ''x_fsize'' = None
            \<or> \<not> numeric (lookup (props w) ''x_fsize'')
               \<and> decimal_value (leading_digits (lookup (props w) ''x_fsize''))
                   < 18446744073709551616
            \<longrightarrow> fontSize w = 0)
       \<and> (18446744073709551616
              \<le> decimal_value (leading_digits (lookup (props w) ''x_fsize''))
            \<longrightarrow> fontSize w = (if hd (lookup (props w) ''x_fsize'') = CHR ''-''
                              then - 9223372036854775808 else 9223372036854775807))
       \<and> (map_of (props w) ''x_wconf'' = None
            \<or> \<not> numeric (lookup (props w) ''x_wconf'')
               \<and> decimal_value (leading_digits (lookup (props w) ''x_wconf''))
                   < 18446744073709551616
            \<longrightarrow> confidence w = 0)
       \<and> (18446744073709551616
              \<le> decimal_value (leading_digits (lookup (props w) ''x_wconf''))
            \<longrightarrow> confidence w = (if hd (lookup (props w) ''x_wconf'') = CHR ''-''
                                then - 9223372036854775808 else 9223372036854775807)))
   \<and> (\<forall>w k. parse_word s = Inr w \<longrightarrow>
         (map_of (props w) k = None \<longleftrightarrow>
            k \<notin> prop_name ` set (strings_Split (AttrOr_title s []) CHR '';'')))"
proof (intro conjI allI impI)
  show "(\<exists>w. parse_word s = Inr w) \<longleftrightarrow>
      (\<forall>prop\<in>set (strings_Split (AttrOr_title s []) CHR '';'').
          CHR '' '' \<in> set (strings_TrimLeft prop '' ''))
      \<and> (\<exists>m. props_loop (strings_Split (AttrOr_title s []) CHR '';'') [] = Inr m
             \<and> CHR '' '' \<in> set (lookup m ''bbox''))"
    using props_loop_Inr [of "strings_Split (AttrOr_title s []) CHR '';''" "[]"]
    by (auto simp: parse_word_Inr)
next
  assume "\<nexists>w. parse_word s = Inr w"
  then show "parse_word s = Inl IndexOutOfRange"
    using parse_word_Inl [of s] by (cases "parse_word s") auto
next
  fix w
  assume w: "parse_word s = Inr w"
  then have fs: "fontSize w = fst (Atoi (lookup (props w) ''x_fsize''))"
    and cf: "confidence w = fst (Atoi (lookup (props w) ''x_wconf''))"
    by (auto simp: parse_word_Inr)
  have missing: "\<not> numeric (lookup m k) \<and> decimal_value (leading_digits (lookup m k)) = 0"
    if "map_of m k = None" for m :: "(string \<times> string) list" and k
    using that
    by (simp add: lookup_def numeric_def unsigned_part_def leading_digits_def decimal_value_def)
  {
    assume "map_of (props w) ''x_fsize'' = None
            \<or> \<not> numeric (lookup (props w) ''x_fsize'')
               \<and> decimal_value (leading_digits (lookup (props w) ''x_fsize''))
                   < 18446744073709551616"
    then have "\<not> numeric (lookup (props w) ''x_fsize'')
        \<and> decimal_value (leading_digits (lookup (props w) ''x_fsize'')) < 18446744073709551616"
      using missing [of "props w" "''x_fsize''"] by auto
    then show "fontSize w = 0"
      using fs by (simp add: Atoi_syntax_error)
  }
  {
    assume "18446744073709551616
              \<le> decimal_value (leading_digits (lookup (props w) ''x_fsize''))"
    then show "fontSize w = (if hd (lookup (props w) ''x_fsize'') = CHR ''-''
                              then - 9223372036854775808 else 9223372036854775807)"
      using fs by (simp only: Atoi_range_error)
  }
  {
    assume "map_of (props w) ''x_wconf'' = None
            \<or> \<not> numeric (lookup (props w) ''x_wconf'')
               \<and> decimal_value (leading_digits (lookup (props w) ''x_wconf''))
                   < 18446744073709551616"
    then have "\<not> numeric (lookup (props w) ''x_wconf'')
        \<and> decimal_value (leading_digits (lookup (props w) ''x_wconf'')) < 18446744073709551616"
      using missing [of "props w" "''x_wconf''"] by auto
    then show "confidence w = 0"
      using cf by (simp add: Atoi_syntax_error)
  }
  {
    assume "18446744073709551616
              \<le> decimal_value (leading_digits (lookup (props w) ''x_wconf''))"
    then show "confidence w = (if hd (lookup (props w) ''x_wconf'') = CHR ''-''
                                then - 9223372036854775808 else 9223372036854775807)"
      using cf by (simp only: Atoi_range_error)
  }
next
  fix w k
  assume "parse_word s = Inr w"
  then have "props_loop (strings_Split (AttrOr_title s []) CHR '';'') [] = Inr (props w)"
    by (auto simp: parse_word_Inr)
  from props_loop_keys [OF this]
  show "map_of (props w) k = None \<longleftrightarrow>
      k \<notin> prop_name ` set (strings_Split (AttrOr_title s []) CHR '';'')"
    by (auto simp: domIff)
qed

theorem parse_word_total_on_well_formed_witness:
  "parse_word \<lparr> attr_title = Some ''bbox 100 200 300 260; x_wconf 9x5'',
                 Text = ''Rechnung'', strong = 0, em = 0 \<rparr>
     = Inr \<lparr> text = ''Rechnung'', fontSize = 0, confidence = 0, isStrong = False,
             isEm = False, height = 200, weight = 0,
             props = [(''bbox'', ''100 200 300 260''), (''x_wconf'', ''9x5'')] \<rparr>
   \<and> map_of [(''bbox'', ''100 200 300 260''), (''x_wconf'', ''9x5'')] ''x_fsize'' = None
   \<and> \<not> numeric ''9x5''
   \<and> decimal_value (leading_digits ''9x5'') = 9
   \<and> parse_word
         \<lparr> attr_title = Some ''bbox 100 200 300 260; x_fsize 99999999999999999999pt'',
           Text = ''Rechnung'', strong = 0, em = 0 \<rparr>
     = Inr \<lparr> text = ''Rechnung'', fontSize = 9223372036854775807, confidence = 0,
             isStrong = False, isEm = False, height = 200, weight = - 10,
             props = [(''bbox'', ''100 200 300 260''),
                      (''x_fsize'', ''99999999999999999999pt'')] \<rparr>
   \<and> decimal_value (leading_digits ''99999999999999999999pt'') = 99999999999999999999"
proof -
  have h: "parse_word \<lparr> attr_title = Some ''bbox 100 200 300 260; x_wconf 9x5'',
                 Text = ''Rechnung'', strong = 0, em = 0 \<rparr>
     = Inr \<lparr> text = ''Rechnung'', fontSize = 0, confidence = 0, isStrong = False,
             isEm = False, height = 200, weight = 0,
             props = [(''bbox'', ''100 200 300 260''), (''x_wconf'', ''9x5'')] \<rparr>"
    by code_simp
  have n: "\<not> numeric ''9x5''" and d: "decimal_value (leading_digits ''9x5'') = 9"
    by code_simp+
  have h': "parse_word
         \<lparr> attr_title = Some ''bbox 100 200 300 260; x_fsize 99999999999999999999pt'',
           Text = ''Rechnung'', strong = 0, em = 0 \<rparr>
     = Inr \<lparr> text = ''Rechnung'', fontSize = 9223372036854775807, confidence = 0,
             isStrong = False, isEm = False, height = 200, weight = - 10,
             props = [(''bbox'', ''100 200 300 260''),
                      (''x_fsize'', ''99999999999999999999pt'')] \<rparr>"
    by code_simp
  have d': "decimal_value (leading_digits ''99999999999999999999pt'') = 99999999999999999999"
    by code_simp
  show ?thesis
    using h n d h' d'
      parse_word_total_on_well_formed
        [of "\<lparr> attr_title = Some ''bbox 100 200 300 260; x_wconf 9x5'',
               Text = ''Rechnung'', strong = 0, em = 0 \<rparr>"]
      parse_word_total_on_well_formed
        [of "\<lparr> attr_title = Some ''bbox 100 200 300 260; x_fsize 99999999999999999999pt'',
               Text = ''Rechnung'', strong = 0, em = 0 \<rparr>"]
    by simp
qed

text \<open>The claim as it is written fails: a missing \<^verbatim>\<open>bbox\<close>, a property with no
  value and a missing \<^verbatim>\<open>title\<close> attribute each end the process.\<close>

theorem missing_field_aborts_parsing:
  "parse_word \<lparr> attr_title = Some ''x_wconf 95; x_fsize 12'',
                 Text = ''Rechnung'', strong = 0, em = 0 \<rparr> = Inl IndexOutOfRange
   \<and> parse_word \<lparr> attr_title = Some ''bbox 100 200 300 260; x_wconf'',
                 Text = ''Rechnung'', strong = 0, em = 0 \<rparr> = Inl IndexOutOfRange
   \<and> parse_word \<lparr> attr_title = None,
                 Text = ''Rechnung'', strong = 0, em = 0 \<rparr> = Inl IndexOutOfRange"
  by code_simp

text \<open>
  Claim C9, as the program has it. The \<open>height\<close> of a parsed word is the second of the
  space-separated fields of its \<^verbatim>\<open>bbox\<close> property, read by \<^verbatim>\<open>Atoi\<close>: of left,
  top, right and bottom it is the top, the distance of the box from the upper edge of
  the page.
\<close>

theorem height_is_second_bbox_field:
  assumes "parse_word s = Inr w"
  shows "props_loop (strings_Split (AttrOr_title s []) CHR '';'') [] = Inr (props w)
         \<and> 1 < length (strings_Split (lookup (props w) ''bbox'') CHR '' '')
         \<and> height w = fst (Atoi (strings_Split (lookup (props w) ''bbox'') CHR '' '' ! 1))"
  using assms by (auto simp: parse_word_Inr length_strings_Split count_list_pos)

theorem height_is_second_bbox_field_witness:
  "parse_word \<lparr> attr_title = Some ''bbox 100 200 300 260; x_wconf 95; x_fsize 12'',
                 Text = ''Rechnung'', strong = 0, em = 0 \<rparr>
     = Inr \<lparr> text = ''Rechnung'', fontSize = 12, confidence = 95, isStrong = False,
             isEm = False, height = 200, weight = 120,
             props = [(''bbox'', ''100 200 300 260''), (''x_wconf'', ''95''),
                      (''x_fsize'', ''12'')] \<rparr>
   \<and> strings_Split ''100 200 300 260'' CHR '' '' ! 1 = ''200''
   \<and> fst (Atoi ''200'') = 200"
proof -
  have h: "parse_word \<lparr> attr_title = Some ''bbox 100 200 300 260; x_wconf 95; x_fsize 12'',
                 Text = ''Rechnung'', strong = 0, em = 0 \<rparr>
     = Inr \<lparr> text = ''Rechnung'', fontSize = 12, confidence = 95, isStrong = False,
             isEm = False, height = 200, weight = 120,
             props = [(''bbox'', ''100 200 300 260''), (''x_wconf'', ''95''),
                      (''x_fsize'', ''12'')] \<rparr>"
    by code_simp
  show ?thesis
    using h height_is_second_bbox_field [OF h] by (simp add: lookup_def)
qed

text \<open>The claim as it is written fails: for the box from 200 to 260 the \<open>height\<close> is
  200, the pixel height of the box is 60.\<close>

theorem height_is_not_box_height:
  "parse_word \<lparr> attr_title = Some ''bbox 100 200 300 260; x_wconf 95; x_fsize 12'',
                 Text = ''Rechnung'', strong = 0, em = 0 \<rparr>
     = Inr \<lparr> text = ''Rechnung'', fontSize = 12, confidence = 95, isStrong = False,
             isEm = False, height = 200, weight = 120,
             props = [(''bbox'', ''100 200 300 260''), (''x_wconf'', ''95''),
                      (''x_fsize'', ''12'')] \<rparr>
   \<and> spec_bbox_pixel_height ''100 200 300 260'' = 60"
  by code_simp

section \<open>The words that the title is built from\<close>

lemma Each_parses:
  "Each ss acc = Inr words \<Longrightarrow>
     \<exists>ws. words = acc @ ws \<and> list_all2 (\<lambda>s w. parse_word s = Inr w) ss ws"
proof (induction ss arbitrary: acc)
  case Nil
  then show ?case by simp
next
  case (Cons s ss)
  from Cons.prems obtain w where w: "parse_word s = Inr w"
    and "Each ss (acc @ [w]) = Inr words"
    by (auto split: sum.splits)
  from Cons.IH [OF this(2)] obtain ws
    where "words = (acc @ [w]) @ ws" and "list_all2 (\<lambda>s w. parse_word s = Inr w) ss ws"
    by blast
  with w have "words = acc @ (w # ws) \<and> list_all2 (\<lambda>s w. parse_word s = Inr w) (s # ss) (w # ws)"
    by simp
  then show ?case by blast
qed

text \<open>
  Claim C6. Whenever \<^verbatim>\<open>ocrImage\<close> returns, its title and confidence are those of the
  walk over the sorted words: the words parsed from the elements of the first page, in
  the order of the document, rearranged into descending order of weight, where for
  every weight the words of that weight keep the order they had in the document.
\<close>

theorem title_walks_words_in_stable_weight_order:
  assumes "ocrImage U world tiffFile outputPrefix = Inr (title, confScore)"
  shows "\<exists>doc words ws.
           hocr_document (world tiffFile outputPrefix) = Some doc
         \<and> list_all2 (\<lambda>s w. parse_word s = Inr w) (Find_page_1_words doc) words
         \<and> mset ws = mset words
         \<and> sorted_wrt (\<lambda>a b. sint (weight b) \<le> sint (weight a)) ws
         \<and> (\<forall>v. filter (\<lambda>w. weight w = v) ws = filter (\<lambda>w. weight w = v) words)
         \<and> title_and_confidence U ws = (title, confScore)"
proof -
  from assms obtain doc words
    where doc: "hocr_document (world tiffFile outputPrefix) = Some doc"
      and words: "Each (Find_page_1_words doc) [] = Inr words"
      and res: "title_and_confidence U (sort_Stable (Reverse ByWeight_Less) words)
                  = (title, confScore)"
    by (auto simp: ocrImage_def Let_def split: if_splits option.splits sum.splits)
  from Each_parses [OF words]
  have "list_all2 (\<lambda>s w. parse_word s = Inr w) (Find_page_1_words doc) words"
    by simp
  with doc res sort_Stable_by_weight [of words] show ?thesis
    by blast
qed

theorem title_walks_words_in_stable_weight_order_witness:
  "ocrImage latin1
     (\<lambda>tiffFile outputPrefix. files_with (Some
        [\<lparr> elem_id = ''page_1'', ocrx_words =
            [(0, \<lparr> attr_title = Some ''bbox 100 900 300 960; x_wconf 90; x_fsize 10'',
                   Text = ''klein'', strong = 0, em = 0 \<rparr>),
             (1, \<lparr> attr_title = Some ''bbox 100 200 300 260; x_wconf 90; x_fsize 20'',
                   Text = ''Titel'', strong = 0, em = 0 \<rparr>),
             (2, \<lparr> attr_title = Some ''bbox 400 200 600 260; x_wconf 90; x_fsize 20'',
                   Text = ''Seite'', strong = 0, em = 0 \<rparr>)] \<rparr>,
         \<lparr> elem_id = ''page_1'', ocrx_words =
            [(1, \<lparr> attr_title = Some ''bbox 100 200 300 260; x_wconf 90; x_fsize 20'',
                   Text = ''Titel'', strong = 0, em = 0 \<rparr>)] \<rparr>]))
     ''X.tiff'' ''ocr-X''
     = Inr (''Titel Seite klein '', 90)
   \<and> (\<exists>words ws.
         map text words = [''klein'', ''Titel'', ''Seite'']
       \<and> mset ws = mset words
       \<and> sorted_wrt (\<lambda>a b. sint (weight b) \<le> sint (weight a)) ws
       \<and> (\<forall>v. filter (\<lambda>w. weight w = v) ws = filter (\<lambda>w. weight w = v) words)
       \<and> title_and_confidence latin1 ws = (''Titel Seite klein '', 90))"
proof -
  let ?doc = "[\<lparr> elem_id = ''page_1'', ocrx_words =
            [(0, \<lparr> attr_title = Some ''bbox 100 900 300 960; x_wconf 90; x_fsize 10'',
                   Text = ''klein'', strong = 0, em = 0 \<rparr>),
             (1, \<lparr> attr_title = Some ''bbox 100 200 300 260; x_wconf 90; x_fsize 20'',
                   Text = ''Titel'', strong = 0, em = 0 \<rparr>),
             (2, \<lparr> attr_title = Some ''bbox 400 200 600 260; x_wconf 90; x_fsize 20'',
                   Text = ''Seite'', strong = 0, em = 0 \<rparr>)] \<rparr>,
         \<lparr> elem_id = ''page_1'', ocrx_words =
            [(1, \<lparr> attr_title = Some ''bbox 100 200 300 260; x_wconf 90; x_fsize 20'',
                   Text = ''Titel'', strong = 0, em = 0 \<rparr>)] \<rparr>]"
  have h: "ocrImage latin1 (\<lambda>tiffFile outputPrefix. files_with (Some ?doc))
      ''X.tiff'' ''ocr-X'' = Inr (''Titel Seite klein '', 90)"
    by code_simp
  have f: "map Text (Find_page_1_words ?doc) = [''klein'', ''Titel'', ''Seite'']"
    by code_simp
  from title_walks_words_in_stable_weight_order [OF h]
  obtain doc words ws
    where doc: "hocr_document (files_with (Some ?doc)) = Some doc"
      and parsed: "list_all2 (\<lambda>s w. parse_word s = Inr w) (Find_page_1_words doc) words"
      and rest: "mset ws = mset words"
        "sorted_wrt (\<lambda>a b. sint (weight b) \<le> sint (weight a)) ws"
        "\<forall>v. filter (\<lambda>w. weight w = v) ws = filter (\<lambda>w. weight w = v) words"
        "title_and_confidence latin1 ws = (''Titel Seite klein '', 90)"
    by blast
  from doc have "doc = ?doc"
    by (simp add: files_with_def)
  have "text w = Text s" if "parse_word s = Inr w" for s w
    using that by (auto simp: parse_word_Inr)
  with parsed have "map text words = map Text (Find_page_1_words doc)"
    by (induction rule: list_all2_induct) simp_all
  with f \<open>doc = ?doc\<close> have m: "map text words = [''klein'', ''Titel'', ''Seite'']"
    by simp
  have ex: "\<exists>words ws.
         map text words = [''klein'', ''Titel'', ''Seite'']
       \<and> mset ws = mset words
       \<and> sorted_wrt (\<lambda>a b. sint (weight b) \<le> sint (weight a)) ws
       \<and> (\<forall>v. filter (\<lambda>w. weight w = v) ws = filter (\<lambda>w. weight w = v) words)
       \<and> title_and_confidence latin1 ws = (''Titel Seite klein '', 90)"
  proof (intro exI conjI)
    show "map text words = [''klein'', ''Titel'', ''Seite'']" by (rule m)
    show "mset ws = mset words" by (rule rest(1))
    show "sorted_wrt (\<lambda>a b. sint (weight b) \<le> sint (weight a)) ws" by (rule rest(2))
    show "\<forall>v. filter (\<lambda>w. weight w = v) ws = filter (\<lambda>w. weight w = v) words"
      by (rule rest(3))
    show "title_and_confidence latin1 ws = (''Titel Seite klein '', 90)" by (rule rest(4))
  qed
  from h ex show ?thesis
    by (rule conjI)
qed

section \<open>Properties of the rounding to float64\<close>

lemma floor_log2_bounds:
  "1 \<le> n \<Longrightarrow> 0 \<le> floor_log2 n \<and> 2 ^ nat (floor_log2 n) \<le> n \<and> n < 2 ^ nat (floor_log2 n + 1)"
proof (induction n rule: floor_log2.induct)
  case (1 n)
  show ?case
  proof (cases "n < 2")
    case True
    with "1.prems" have "n = 1" by simp
    then show ?thesis by (simp add: floor_log2.simps)
  next
    case False
    then have "1 \<le> n div 2" by simp
    from "1.IH" [OF False this]
    have e: "0 \<le> floor_log2 (n div 2)"
      and lo: "2 ^ nat (floor_log2 (n div 2)) \<le> n div 2"
      and hi: "n div 2 < 2 ^ nat (floor_log2 (n div 2) + 1)"
      by simp_all
    have eq: "floor_log2 n = 1 + floor_log2 (n div 2)"
      using False by (subst floor_log2.simps) simp
    from e have n1: "nat (1 + floor_log2 (n div 2)) = Suc (nat (floor_log2 (n div 2)))"
      and n2: "nat (1 + floor_log2 (n div 2) + 1) = Suc (nat (floor_log2 (n div 2) + 1))"
      by simp_all
    from lo have "2 * 2 ^ nat (floor_log2 (n div 2)) \<le> n"
      by linarith
    moreover from hi have "n < 2 * 2 ^ nat (floor_log2 (n div 2) + 1)"
      by linarith
    ultimately show ?thesis
      using e by (simp only: eq n1 n2 power_Suc) simp
  qed
qed

lemma round_half_even_of_int: "round_half_even (of_int k) = k"
  by (simp add: round_half_even_def)

lemma round_half_even_error: "\<bar>of_int (round_half_even m) - m\<bar> \<le> 1 / 2"
proof -
  have "of_int \<lfloor>m\<rfloor> \<le> m" and "m < of_int \<lfloor>m\<rfloor> + 1"
    by linarith+
  then show ?thesis
    by (auto simp: round_half_even_def Let_def)
qed

lemma binade_bounds:
  assumes "0 < x"
  shows "2 powi binade x \<le> x \<and> x < 2 powi (binade x + 1)"
proof (cases "1 \<le> x")
  case True
  then have n: "1 \<le> \<lfloor>x\<rfloor>" by simp
  from floor_log2_bounds [OF n]
  have e: "0 \<le> floor_log2 \<lfloor>x\<rfloor>"
    and lo: "2 ^ nat (floor_log2 \<lfloor>x\<rfloor>) \<le> \<lfloor>x\<rfloor>"
    and hi: "\<lfloor>x\<rfloor> < 2 ^ nat (floor_log2 \<lfloor>x\<rfloor> + 1)"
    by simp_all
  from lo have "real_of_int (2 ^ nat (floor_log2 \<lfloor>x\<rfloor>)) \<le> of_int \<lfloor>x\<rfloor>"
    by (simp only: of_int_le_iff)
  then have 1: "2 ^ nat (floor_log2 \<lfloor>x\<rfloor>) \<le> x"
    by (simp add: le_floor_iff)
  from hi have "\<lfloor>x\<rfloor> + 1 \<le> 2 ^ nat (floor_log2 \<lfloor>x\<rfloor> + 1)"
    by simp
  then have "real_of_int (\<lfloor>x\<rfloor> + 1) \<le> of_int (2 ^ nat (floor_log2 \<lfloor>x\<rfloor> + 1))"
    by (simp only: of_int_le_iff)
  then have 2: "x < 2 ^ nat (floor_log2 \<lfloor>x\<rfloor> + 1)"
    by (simp add: floor_less_iff) linarith
  from True e 1 2 show ?thesis
    by (simp add: binade_def power_int_def)
next
  case False
  define k where "k = floor_log2 \<lfloor>1 / x\<rfloor>"
  from False assms have y: "1 \<le> 1 / x" by simp
  then have n: "1 \<le> \<lfloor>1 / x\<rfloor>" by simp
  from floor_log2_bounds [OF n]
  have e: "0 \<le> k"
    and lo: "2 ^ nat k \<le> \<lfloor>1 / x\<rfloor>"
    and hi: "\<lfloor>1 / x\<rfloor> < 2 ^ nat (k + 1)"
    by (simp_all add: k_def)
  from lo have "real_of_int (2 ^ nat k) \<le> of_int \<lfloor>1 / x\<rfloor>"
    by (simp only: of_int_le_iff)
  then have "2 ^ nat k \<le> 1 / x"
    by (simp add: le_floor_iff)
  with assms have 1: "x * 2 ^ nat k \<le> 1"
    by (simp add: field_simps)
  from hi have "\<lfloor>1 / x\<rfloor> + 1 \<le> 2 ^ nat (k + 1)"
    by simp
  then have "real_of_int (\<lfloor>1 / x\<rfloor> + 1) \<le> of_int (2 ^ nat (k + 1))"
    by (simp only: of_int_le_iff)
  then have "1 / x < 2 ^ nat (k + 1)"
    by (simp add: floor_less_iff) linarith
  with assms have 2: "1 < x * 2 ^ nat (k + 1)"
    by (simp add: field_simps)
  from e have s: "nat (k + 1) = Suc (nat k)"
    by simp
  show ?thesis
  proof (cases "x * 2 ^ nat k = 1")
    case True
    then have x: "x = 1 / 2 ^ nat k"
      by (simp add: field_simps)
    have b: "binade x = - k"
      using False True by (simp add: binade_def k_def [symmetric])
    have p1: "(2::real) powi (- k) = 1 / 2 ^ nat k"
      using e by (simp add: power_int_def field_simps)
    have p2: "(2::real) powi (- k + 1) = 2 / 2 ^ nat k"
    proof (cases "k = 0")
      case True
      then show ?thesis by simp
    next
      case False
      with e have "nat k = Suc (nat (k - 1))" and "\<not> 0 \<le> - k + 1 \<or> k = 1"
        by auto
      with e False show ?thesis
        by (cases "k = 1") (auto simp: power_int_def field_simps)
    qed
    show ?thesis
      unfolding b p1 p2 by (subst (1 2) x) (simp add: divide_strict_right_mono)
  next
    case neq: False
    with 1 have 3: "x * 2 ^ nat k < 1" by simp
    have b: "binade x = - k - 1"
      using False neq by (simp add: binade_def k_def [symmetric])
    have p1: "(2::real) powi (- k - 1) = 1 / 2 ^ nat (k + 1)"
      using e by (simp add: power_int_def field_simps nat_add_distrib)
    have p2: "(2::real) powi (- k - 1 + 1) = 1 / 2 ^ nat k"
      using e by (simp add: power_int_def field_simps)
    from 2 3 show ?thesis
      unfolding b p1 p2 by (simp add: field_simps)
  qed
qed

lemma float64_error: "\<bar>float64 x - x\<bar> \<le> \<bar>x\<bar> / 2 ^ 53"
proof (cases "x = 0")
  case True
  then show ?thesis by (simp add: float64_def)
next
  case False
  define ulp :: real where "ulp = 2 powi (binade \<bar>x\<bar> - 52)"
  have pos: "0 < ulp"
    by (simp add: ulp_def)
  from False have "2 powi binade \<bar>x\<bar> \<le> \<bar>x\<bar>"
    using binade_bounds [of "\<bar>x\<bar>"] by simp
  moreover have "ulp = 2 powi binade \<bar>x\<bar> / 2 ^ 52"
    by (simp add: ulp_def power_int_diff)
  ultimately have u: "ulp \<le> \<bar>x\<bar> / 2 ^ 52"
    by (simp add: divide_right_mono)
  have "float64 x - x = (of_int (round_half_even (x / ulp)) - x / ulp) * ulp"
    using False pos by (simp add: float64_def ulp_def [symmetric] Let_def field_simps)
  then have "\<bar>float64 x - x\<bar> = \<bar>of_int (round_half_even (x / ulp)) - x / ulp\<bar> * ulp"
    using pos by (simp add: abs_mult)
  also have "\<dots> \<le> 1 / 2 * ulp"
    using round_half_even_error [of "x / ulp"] pos by (intro mult_right_mono) simp_all
  also have "\<dots> \<le> \<bar>x\<bar> / 2 ^ 53"
    using u by simp
  finally show ?thesis .
qed

lemma float64_of_int:
  assumes "\<bar>i\<bar> < 2 ^ 53"
  shows "float64 (of_int i) = of_int i"
proof (cases "i = 0")
  case True
  then show ?thesis by (simp add: float64_def)
next
  case False
  define e where "e = floor_log2 \<bar>i\<bar>"
  from False have i: "1 \<le> \<bar>i\<bar>" by simp
  from floor_log2_bounds [OF i]
  have e0: "0 \<le> e" and lo: "2 ^ nat e \<le> \<bar>i\<bar>"
    by (simp_all add: e_def)
  from lo assms have lt: "(2::int) ^ nat e < 2 ^ 53"
    by linarith
  have "nat e < 53"
    by (rule power_less_imp_less_exp [OF _ lt]) simp
  with e0 have e52: "e \<le> 52"
    by simp
  have b: "binade \<bar>real_of_int i\<bar> = e"
    using i by (simp add: binade_def e_def flip: of_int_abs)
  have ulp: "(2::real) powi (e - 52) = 1 / 2 ^ nat (52 - e)"
    using e52 by (cases "e = 52") (simp_all add: power_int_def power_one_over)
  have "real_of_int i / (1 / 2 ^ nat (52 - e)) = of_int (i * 2 ^ nat (52 - e))"
    by simp
  then have "round_half_even (real_of_int i / (1 / 2 ^ nat (52 - e))) = i * 2 ^ nat (52 - e)"
    by (simp only: round_half_even_of_int)
  with False show ?thesis
    by (simp add: float64_def b ulp Let_def)
qed

section \<open>Properties of the title loop\<close>

lemma rune_loop_eq:
  "rune_loop U conf rs (letters, confidences) =
     (letters + length (filter (\<lambda>r. IsLetter U r \<or> IsDigit U r) rs),
      confidences @ replicate (length (filter (\<lambda>r. IsLetter U r \<or> IsDigit U r) rs)) conf)"
  by (induction rs arbitrary: letters confidences) (simp_all add: replicate_app_Cons_same)

lemma title_loop_step:
  "title_loop U (w # rest) (t, cs) =
     (if 80 < length (t @ title_part U w) then (t @ title_part U w, cs @ samples_of U w)
      else title_loop U rest (t @ title_part U w, cs @ samples_of U w))"
  by (simp add: rune_loop_eq title_part_def samples_of_def letters_of_def Let_def)

declare title_loop.simps(2) [simp del]

lemma title_loop_walked:
  "title_loop U ws (t, cs) =
     (t @ concat (map (title_part U) (take (walked U ws t) ws)),
      cs @ concat (map (samples_of U) (take (walked U ws t) ws)))"
  by (induction ws arbitrary: t cs) (simp_all add: title_loop_step)

lemma walked_le: "walked U ws t \<le> length ws"
  by (induction ws arbitrary: t) simp_all

lemma walked_before:
  "0 < j \<Longrightarrow> j < walked U ws t \<Longrightarrow>
     length (t @ concat (map (title_part U) (take j ws))) \<le> 80"
proof (induction ws arbitrary: t j)
  case Nil
  then show ?case by simp
next
  case (Cons w ws)
  from Cons.prems have small: "\<not> 80 < length (t @ title_part U w)"
    by (auto split: if_splits)
  with Cons.prems have j: "j - 1 < walked U ws (t @ title_part U w)"
    by (auto split: if_splits)
  show ?case
  proof (cases "j = 1")
    case True
    then show ?thesis using small by simp
  next
    case False
    with Cons.prems have "0 < j - 1" by simp
    from Cons.IH [OF this j] show ?thesis
      using Cons.prems(1) by (cases j) simp_all
  qed
qed

lemma walked_stop:
  "walked U ws t < length ws \<Longrightarrow>
     80 < length (t @ concat (map (title_part U) (take (walked U ws t) ws)))"
proof (induction ws arbitrary: t)
  case Nil
  then show ?case by simp
next
  case (Cons w ws)
  show ?case
  proof (cases "80 < length (t @ title_part U w)")
    case True
    then show ?thesis by simp
  next
    case False
    with Cons.prems have "walked U ws (t @ title_part U w) < length ws" by simp
    from Cons.IH [OF this] show ?thesis using False by simp
  qed
qed

lemma foldl_plus_sum_list: "foldl (+) a sl = a + sum_list (sl :: goint list)"
  by (induction sl arbitrary: a) (simp_all add: add.assoc)

lemma sum_list_goint: "(sum_list sl :: goint) = word_of_int (sum_list (map sint sl))"
  by (induction sl) simp_all

lemma avg_is_rounded_mean:
  assumes "\<bar>sum_list (map sint sl)\<bar> < 2 ^ 53" and "int (length sl) < 2 ^ 53"
  shows "avg sl = float64 (arithmetic_mean (map sint sl))"
proof (cases "sl = []")
  case True
  then show ?thesis by (simp add: avg_def arithmetic_mean_def float64_def)
next
  case False
  have "sint (sum_list sl) = signed_take_bit 63 (sum_list (map sint sl))"
    by (subst sum_list_goint) (simp add: sint_sbintrunc')
  also have "\<dots> = sum_list (map sint sl)"
    using assms(1) by (intro signed_take_bit_int_eq_self) auto
  finally have s: "sint (foldl (+) 0 sl) = sum_list (map sint sl)"
    by (simp add: foldl_plus_sum_list)
  have n: "float64 (real (length sl)) = real (length sl)"
    using float64_of_int [of "int (length sl)"] assms(2) by simp
  from False show ?thesis
    by (simp add: avg_def arithmetic_mean_def s n float64_of_int [OF assms(1)])
qed

lemma arithmetic_mean_abs_le: "\<bar>arithmetic_mean xs\<bar> \<le> \<bar>real_of_int (sum_list xs)\<bar>"
proof (cases "xs = []")
  case True
  then show ?thesis by (simp add: arithmetic_mean_def)
next
  case False
  then have n: "1 \<le> real (length xs)"
    by (cases xs) simp_all
  have "\<bar>real_of_int (sum_list xs)\<bar> * 1 \<le> \<bar>real_of_int (sum_list xs)\<bar> * real (length xs)"
    using n by (intro mult_left_mono) simp_all
  moreover from False have "0 < real (length xs)"
    by simp
  ultimately
  have "\<bar>real_of_int (sum_list xs)\<bar> / real (length xs) \<le> \<bar>real_of_int (sum_list xs)\<bar>"
    by (simp only: pos_divide_le_eq mult_1_right)
  with False show ?thesis
    by (simp add: arithmetic_mean_def)
qed

text \<open>
  Claim C4, as the program has it. The title is made of the texts, each followed by a
  space, of the words that hold a letter or a digit and have a confidence above 70,
  taken from the first \<open>k\<close> words of the sorted list: the walk goes on while the
  title is at most 80 bytes long (\<^verbatim>\<open>len(title)\<close>, the length of its UTF-8 encoding)
  and ends after the first word that makes it longer, which is kept in full; no word
  after that one is looked at.
\<close>

theorem title_stops_over_80_bytes:
  "\<exists>k\<le>length ws.
      fst (title_and_confidence U ws) = concat (map (title_part U) (take k ws))
    \<and> (\<forall>j<k. length (concat (map (title_part U) (take j ws))) \<le> 80)
    \<and> (k < length ws \<longrightarrow> 80 < length (concat (map (title_part U) (take k ws))))"
proof (intro exI [of _ "walked U ws []"] conjI allI impI)
  show "walked U ws [] \<le> length ws"
    by (rule walked_le)
  show "fst (title_and_confidence U ws) =
      concat (map (title_part U) (take (walked U ws []) ws))"
    by (simp add: title_and_confidence_def title_loop_walked)
  show "length (concat (map (title_part U) (take j ws))) \<le> 80" if "j < walked U ws []" for j
    using walked_before [of j U ws "[]"] that by (cases "j = 0") simp_all
  show "80 < length (concat (map (title_part U) (take (walked U ws []) ws)))"
    if "walked U ws [] < length ws"
    using walked_stop [OF that] by simp
qed

theorem title_stops_over_80_bytes_witness:
  "fst (title_and_confidence latin1
          [word_of (replicate 50 CHR ''a'') 95, word_of ''low'' 60,
           word_of (replicate 40 CHR ''b'') 95, word_of ''c'' 99])
     = replicate 50 CHR ''a'' @ '' '' @ replicate 40 CHR ''b'' @ '' ''
   \<and> (\<exists>k\<le>4. replicate 50 CHR ''a'' @ '' '' @ replicate 40 CHR ''b'' @ '' ''
         = concat (map (title_part latin1)
             (take k [word_of (replicate 50 CHR ''a'') 95, word_of ''low'' 60,
                      word_of (replicate 40 CHR ''b'') 95, word_of ''c'' 99])))"
proof -
  have e: "fst (title_and_confidence latin1
          [word_of (replicate 50 CHR ''a'') 95, word_of ''low'' 60,
           word_of (replicate 40 CHR ''b'') 95, word_of ''c'' 99])
     = replicate 50 CHR ''a'' @ '' '' @ replicate 40 CHR ''b'' @ '' ''"
    by code_simp
  from title_stops_over_80_bytes
    [of "[word_of (replicate 50 CHR ''a'') 95, word_of ''low'' 60,
          word_of (replicate 40 CHR ''b'') 95, word_of ''c'' 99]" latin1]
  obtain k
    where k: "k \<le> length [word_of (replicate 50 CHR ''a'') 95, word_of ''low'' 60,
                           word_of (replicate 40 CHR ''b'') 95, word_of ''c'' 99]"
    and "fst (title_and_confidence latin1
          [word_of (replicate 50 CHR ''a'') 95, word_of ''low'' 60,
           word_of (replicate 40 CHR ''b'') 95, word_of ''c'' 99])
       = concat (map (title_part latin1)
           (take k [word_of (replicate 50 CHR ''a'') 95, word_of ''low'' 60,
                    word_of (replicate 40 CHR ''b'') 95, word_of ''c'' 99]))"
    by blast
  moreover from k have "k \<le> 4"
    by simp
  ultimately have "k \<le> 4
      \<and> replicate 50 CHR ''a'' @ '' '' @ replicate 40 CHR ''b'' @ '' ''
        = concat (map (title_part latin1)
            (take k [word_of (replicate 50 CHR ''a'') 95, word_of ''low'' 60,
                     word_of (replicate 40 CHR ''b'') 95, word_of ''c'' 99]))"
    using e by simp
  with e show ?thesis by blast
qed

text \<open>The claim as it is written fails where a character takes more than one byte:
  after a word of forty letters \<open>o\<close> with diaeresis (two bytes each) the title is 81
  bytes and 41 characters long, and the program stops there; a walk that counts
  characters goes on to the next word.\<close>

theorem title_cap_counts_bytes:
  "fst (title_and_confidence latin1
          [word_of (concat (replicate 40 [CHR 0xC3, CHR 0xB6])) 95, word_of ''Rechnung'' 95])
     = concat (replicate 40 [CHR 0xC3, CHR 0xB6]) @ '' ''
   \<and> spec_title_walk latin1
          [word_of (concat (replicate 40 [CHR 0xC3, CHR 0xB6])) 95, word_of ''Rechnung'' 95] []
     = concat (replicate 40 [CHR 0xC3, CHR 0xB6]) @ '' Rechnung ''
   \<and> length (concat (replicate 40 [CHR 0xC3, CHR 0xB6]) @ '' '') = 81
   \<and> length (range_runes (concat (replicate 40 [CHR 0xC3, CHR 0xB6]) @ '' '')) = 41"
  by code_simp

text \<open>
  Claim C1, as the program has it. Take the samples of the words the loop has walked
  (the first \<open>k\<close> words of the sorted list, where the walk ends as in claim C4): one
  sample, the confidence of the word, for every letter and digit of the word. The words
  after the \<^verbatim>\<open>break\<close> give no sample. When the sum of the samples and their number
  are below \<open>2^53\<close> in absolute value, the confidence score is the \<^verbatim>\<open>float64\<close>
  nearest to the arithmetic mean of the samples (0 when there is none): it differs from
  the mean by at most the mean times \<open>2^-53\<close>, and it is the mean when the mean is an
  integer.
\<close>

theorem confidence_is_mean_over_walked_words:
  "\<exists>k\<le>length ws.
      (\<forall>j<k. length (concat (map (title_part U) (take j ws))) \<le> 80)
    \<and> (k < length ws \<longrightarrow> 80 < length (concat (map (title_part U) (take k ws))))
    \<and> (\<bar>sum_list (map sint (concat (map (samples_of U) (take k ws))))\<bar> < 2 ^ 53
         \<and> int (length (concat (map (samples_of U) (take k ws)))) < 2 ^ 53
       \<longrightarrow> snd (title_and_confidence U ws) = float64 (spec_confidence U (take k ws))
         \<and> \<bar>snd (title_and_confidence U ws) - spec_confidence U (take k ws)\<bar>
              \<le> \<bar>spec_confidence U (take k ws)\<bar> / 2 ^ 53
         \<and> (\<forall>i. spec_confidence U (take k ws) = of_int i
                \<longrightarrow> snd (title_and_confidence U ws) = of_int i))"
proof (intro exI [of _ "walked U ws []"] conjI allI impI)
  let ?samples = "concat (map (samples_of U) (take (walked U ws []) ws))"
  show "walked U ws [] \<le> length ws"
    by (rule walked_le)
  show "length (concat (map (title_part U) (take j ws))) \<le> 80" if "j < walked U ws []" for j
    using walked_before [of j U ws "[]"] that by (cases "j = 0") simp_all
  show "80 < length (concat (map (title_part U) (take (walked U ws []) ws)))"
    if "walked U ws [] < length ws"
    using walked_stop [OF that] by simp
  assume small: "\<bar>sum_list (map sint ?samples)\<bar> < 2 ^ 53 \<and> int (length ?samples) < 2 ^ 53"
  then show eq: "snd (title_and_confidence U ws)
      = float64 (spec_confidence U (take (walked U ws []) ws))"
    using avg_is_rounded_mean [of ?samples]
    by (simp add: title_and_confidence_def title_loop_walked spec_confidence_def)
  show "\<bar>snd (title_and_confidence U ws) - spec_confidence U (take (walked U ws []) ws)\<bar>
      \<le> \<bar>spec_confidence U (take (walked U ws []) ws)\<bar> / 2 ^ 53"
    unfolding eq by (rule float64_error)
  fix i
  assume i: "spec_confidence U (take (walked U ws []) ws) = of_int i"
  have "\<bar>real_of_int i\<bar> \<le> \<bar>real_of_int (sum_list (map sint ?samples))\<bar>"
    using arithmetic_mean_abs_le [of "map sint ?samples"] i
    by (simp add: spec_confidence_def)
  then have "\<bar>i\<bar> \<le> \<bar>sum_list (map sint ?samples)\<bar>"
    by linarith
  with small have "\<bar>i\<bar> < 2 ^ 53"
    by linarith
  then show "snd (title_and_confidence U ws) = of_int i"
    unfolding eq i by (rule float64_of_int)
qed

theorem confidence_is_mean_over_walked_words_witness:
  "snd (title_and_confidence latin1 [word_of ''abcd'' 90, word_of ''a'' 10]) = 74
   \<and> spec_confidence latin1 [word_of ''abcd'' 90, word_of ''a'' 10] = 74
   \<and> (\<exists>k\<le>2. snd (title_and_confidence latin1 [word_of ''abcd'' 90, word_of ''a'' 10])
         = float64 (spec_confidence latin1 (take k [word_of ''abcd'' 90, word_of ''a'' 10])))
   \<and> snd (title_and_confidence latin1 [word_of ''a'' 50, word_of ''bb'' 40])
       = 6098624495397547 / 2 ^ 47
   \<and> spec_confidence latin1 [word_of ''a'' 50, word_of ''bb'' 40] = 130 / 3"
proof -
  have e: "snd (title_and_confidence latin1 [word_of ''abcd'' 90, word_of ''a'' 10]) = 74"
    by code_simp
  have s: "spec_confidence latin1 [word_of ''abcd'' 90, word_of ''a'' 10] = 74"
    by code_simp
  have r: "snd (title_and_confidence latin1 [word_of ''a'' 50, word_of ''bb'' 40])
       = 6098624495397547 / 2 ^ 47"
    by code_simp
  have m: "spec_confidence latin1 [word_of ''a'' 50, word_of ''bb'' 40] = 130 / 3"
    by code_simp
  have small: "\<bar>sum_list (map sint (concat (map (samples_of latin1)
                  (take k [word_of ''abcd'' 90, word_of ''a'' 10]))))\<bar> < 2 ^ 53
            \<and> int (length (concat (map (samples_of latin1)
                  (take k [word_of ''abcd'' 90, word_of ''a'' 10])))) < 2 ^ 53"
    if "k \<le> 2" for k
  proof -
    have "\<bar>sum_list (map sint (concat (map (samples_of latin1)
                  (take 0 [word_of ''abcd'' 90, word_of ''a'' 10]))))\<bar> < 2 ^ 53
            \<and> int (length (concat (map (samples_of latin1)
                  (take 0 [word_of ''abcd'' 90, word_of ''a'' 10])))) < 2 ^ 53"
      by code_simp
    moreover have "\<bar>sum_list (map sint (concat (map (samples_of latin1)
                  (take 1 [word_of ''abcd'' 90, word_of ''a'' 10]))))\<bar> < 2 ^ 53
            \<and> int (length (concat (map (samples_of latin1)
                  (take 1 [word_of ''abcd'' 90, word_of ''a'' 10])))) < 2 ^ 53"
      by code_simp
    moreover have "\<bar>sum_list (map sint (concat (map (samples_of latin1)
                  (take 2 [word_of ''abcd'' 90, word_of ''a'' 10]))))\<bar> < 2 ^ 53
            \<and> int (length (concat (map (samples_of latin1)
                  (take 2 [word_of ''abcd'' 90, word_of ''a'' 10])))) < 2 ^ 53"
      by code_simp
    moreover from that have "k = 0 \<or> k = 1 \<or> k = 2"
      by arith
    ultimately show ?thesis by blast
  qed
  from confidence_is_mean_over_walked_words
    [of "[word_of ''abcd'' 90, word_of ''a'' 10]" latin1]
  obtain k where k: "k \<le> length [word_of ''abcd'' 90, word_of ''a'' 10]"
    and "\<bar>sum_list (map sint (concat (map (samples_of latin1)
                  (take k [word_of ''abcd'' 90, word_of ''a'' 10]))))\<bar> < 2 ^ 53
            \<and> int (length (concat (map (samples_of latin1)
                  (take k [word_of ''abcd'' 90, word_of ''a'' 10])))) < 2 ^ 53
         \<longrightarrow> snd (title_and_confidence latin1 [word_of ''abcd'' 90, word_of ''a'' 10])
               = float64 (spec_confidence latin1 (take k [word_of ''abcd'' 90, word_of ''a'' 10]))
           \<and> \<bar>snd (title_and_confidence latin1 [word_of ''abcd'' 90, word_of ''a'' 10])
                - spec_confidence latin1 (take k [word_of ''abcd'' 90, word_of ''a'' 10])\<bar>
                \<le> \<bar>spec_confidence latin1 (take k [word_of ''abcd'' 90, word_of ''a'' 10])\<bar>
                     / 2 ^ 53
           \<and> (\<forall>i. spec_confidence latin1 (take k [word_of ''abcd'' 90, word_of ''a'' 10])
                     = of_int i
                \<longrightarrow> snd (title_and_confidence latin1 [word_of ''abcd'' 90, word_of ''a'' 10])
                     = of_int i)"
    by blast
  moreover from k have "k \<le> 2"
    by simp
  ultimately have "k \<le> 2
      \<and> snd (title_and_confidence latin1 [word_of ''abcd'' 90, word_of ''a'' 10])
          = float64 (spec_confidence latin1 (take k [word_of ''abcd'' 90, word_of ''a'' 10]))"
    using small by blast
  with e s r m show ?thesis by blast
qed

text \<open>The claim as it is written fails when the loop breaks: the first word of the
  sorted list, of 81 letters with confidence 90, ends the walk, and the confidence
  score is 90 (above the threshold of 70); the mean over the letters of both parsed
  words is 50.\<close>

theorem words_after_break_give_no_sample:
  "ocrImage latin1
     (\<lambda>tiffFile outputPrefix.
        \<lparr> tesseract_ok = True, hocr_opens = True,
          hocr_document = Some
            [\<lparr> elem_id = ''page_1'', ocrx_words =
                [(0, \<lparr> attr_title = Some ''bbox 100 900 300 960; x_wconf 10; x_fsize 10'',
                       Text = replicate 81 CHR ''b'', strong = 0, em = 0 \<rparr>),
                 (1, \<lparr> attr_title = Some ''bbox 100 200 300 260; x_wconf 90; x_fsize 20'',
                       Text = replicate 81 CHR ''a'', strong = 0, em = 0 \<rparr>)] \<rparr>],
          title_meta_creates = True \<rparr>)
     ''X.tiff'' ''ocr-X''
     = Inr (replicate 81 CHR ''a'' @ '' '', 90)
   \<and> (case Each
          [\<lparr> attr_title = Some ''bbox 100 900 300 960; x_wconf 10; x_fsize 10'',
             Text = replicate 81 CHR ''b'', strong = 0, em = 0 \<rparr>,
           \<lparr> attr_title = Some ''bbox 100 200 300 260; x_wconf 90; x_fsize 20'',
             Text = replicate 81 CHR ''a'', strong = 0, em = 0 \<rparr>] [] of
         Inl e \<Rightarrow> 0
       | Inr words \<Rightarrow> spec_confidence latin1 words) = 50"
  by code_simp

section \<open>Failures of a candidate\<close>

lemma ocrImage_unreadable:
  "hocr_document (world tiffFile outputPrefix) = None \<Longrightarrow>
     ocrImage U world tiffFile outputPrefix = Inl LogFatal"
  by (simp add: ocrImage_def Let_def)

lemma ocrImage_no_page:
  assumes "tesseract_ok (world tiffFile outputPrefix)"
    and "hocr_opens (world tiffFile outputPrefix)"
    and "hocr_document (world tiffFile outputPrefix) = Some doc"
    and "\<forall>e\<in>set doc. elem_id e \<noteq> ''page_1''"
    and "title_meta_creates (world tiffFile outputPrefix)"
  shows "ocrImage U world tiffFile outputPrefix = Inr ([], 0)"
proof -
  from assms(4) have "filter (\<lambda>e. elem_id e = ''page_1'') doc = []"
    by (simp add: filter_empty_conv)
  then have "Find_page_1_words doc = []"
    by (simp add: Find_page_1_words_def)
  with assms(1,2,3,5) show ?thesis
    by (simp add: ocrImage_def Let_def sort_Stable_def title_and_confidence_def avg_def)
qed

text \<open>
  Claim C7, as the program has it. When the parser returns an error for the markup of
  a candidate, \<^verbatim>\<open>ocrImage\<close> ends the process with \<^verbatim>\<open>log.Fatal\<close>: the loop stops
  there with the failure and tries no further angle. When the markup is read and has
  no element with the id \<^verbatim>\<open>page_1\<close>, the candidate is a result with the empty title
  and the confidence 0, and the loop goes on to the next angle (the output prefix
  becomes this candidate's while the title is empty).
\<close>

theorem unreadable_markup_is_fatal_missing_page_is_skipped:
  "(hocr_document (world (ocrInput_of fileId a) (outputPrefixR_of fileId a)) = None \<longrightarrow>
      rotations_loop convert (ocrImage U world) fileId (a # post) (title, p, calls)
        = Inl LogFatal)
   \<and> ((a = 0 \<or> convert a)
       \<and> tesseract_ok (world (ocrInput_of fileId a) (outputPrefixR_of fileId a))
       \<and> hocr_opens (world (ocrInput_of fileId a) (outputPrefixR_of fileId a))
       \<and> hocr_document (world (ocrInput_of fileId a) (outputPrefixR_of fileId a)) = Some doc
       \<and> (\<forall>e\<in>set doc. elem_id e \<noteq> ''page_1'')
       \<and> title_meta_creates (world (ocrInput_of fileId a) (outputPrefixR_of fileId a)) \<longrightarrow>
      ocrImage U world (ocrInput_of fileId a) (outputPrefixR_of fileId a) = Inr ([], 0)
      \<and> rotations_loop convert (ocrImage U world) fileId (a # post) (title, p, calls)
          = rotations_loop convert (ocrImage U world) fileId post
              (title, if title = [] then outputPrefixR_of fileId a else p,
               calls @ [call_of fileId a]))"
proof (intro conjI impI)
  assume "hocr_document (world (ocrInput_of fileId a) (outputPrefixR_of fileId a)) = None"
  then have "candidate convert (ocrImage U world) fileId a = Inl LogFatal"
    by (simp add: candidate_def ocrImage_unreadable)
  then show "rotations_loop convert (ocrImage U world) fileId (a # post) (title, p, calls)
        = Inl LogFatal"
    by (rule loop_fatal)
next
  assume h: "(a = 0 \<or> convert a)
       \<and> tesseract_ok (world (ocrInput_of fileId a) (outputPrefixR_of fileId a))
       \<and> hocr_opens (world (ocrInput_of fileId a) (outputPrefixR_of fileId a))
       \<and> hocr_document (world (ocrInput_of fileId a) (outputPrefixR_of fileId a)) = Some doc
       \<and> (\<forall>e\<in>set doc. elem_id e \<noteq> ''page_1'')
       \<and> title_meta_creates (world (ocrInput_of fileId a) (outputPrefixR_of fileId a))"
  then show r: "ocrImage U world (ocrInput_of fileId a) (outputPrefixR_of fileId a) = Inr ([], 0)"
    by (intro ocrImage_no_page [of world _ _ doc]) simp_all
  from h r have "candidate convert (ocrImage U world) fileId a = Inr ([], 0)"
    by (auto simp: candidate_def)
  from loop_low [OF this]
  show "rotations_loop convert (ocrImage U world) fileId (a # post) (title, p, calls)
          = rotations_loop convert (ocrImage U world) fileId post
              (title, if title = [] then outputPrefixR_of fileId a else p,
               calls @ [call_of fileId a])"
    by simp
qed

theorem unreadable_markup_is_fatal_missing_page_is_skipped_witness:
  "rotations_loop (\<lambda>_. True)
     (ocrImage latin1 (\<lambda>tiffFile outputPrefix.
        files_with (if outputPrefix = ''ocr-X'' then None
                    else Some (page_of_one_word ''page_1''))))
     ''X'' [0, 180] ([], [], []) = Inl LogFatal
   \<and> ocrImage latin1 (\<lambda>tiffFile outputPrefix.
        files_with (Some (page_of_one_word
          (if outputPrefix = ''ocr-X'' then ''page_2'' else ''page_1''))))
       ''X.tiff'' ''ocr-X'' = Inr ([], 0)
   \<and> rotations_loop (\<lambda>_. True)
     (ocrImage latin1 (\<lambda>tiffFile outputPrefix.
        files_with (Some (page_of_one_word
          (if outputPrefix = ''ocr-X'' then ''page_2'' else ''page_1'')))))
     ''X'' [0, 180] ([], [], [])
     = Inr (''Rechnung '', ''ocr-X-r180'',
            [(''X.tiff'', ''ocr-X''), (''X.tiff-r180.tiff'', ''ocr-X-r180'')])"
proof -
  have fatal: "rotations_loop (\<lambda>_. True)
     (ocrImage latin1 (\<lambda>tiffFile outputPrefix.
        files_with (if outputPrefix = ''ocr-X'' then None
                    else Some (page_of_one_word ''page_1''))))
     ''X'' [0, 180] ([], [], []) = Inl LogFatal"
    using unreadable_markup_is_fatal_missing_page_is_skipped
      [where world = "\<lambda>tiffFile outputPrefix.
          files_with (if outputPrefix = ''ocr-X'' then None
                      else Some (page_of_one_word ''page_1''))"
        and fileId = "''X''" and a = 0 and post = "[180]" and convert = "\<lambda>_. True"
        and U = latin1 and title = "[]" and p = "[]" and calls = "[]"]
    by (simp add: files_with_def outputPrefixR_of_def)
  have skipped: "ocrImage latin1 (\<lambda>tiffFile outputPrefix.
        files_with (Some (page_of_one_word
          (if outputPrefix = ''ocr-X'' then ''page_2'' else ''page_1''))))
       ''X.tiff'' ''ocr-X'' = Inr ([], 0)
     \<and> rotations_loop (\<lambda>_. True)
       (ocrImage latin1 (\<lambda>tiffFile outputPrefix.
          files_with (Some (page_of_one_word
            (if outputPrefix = ''ocr-X'' then ''page_2'' else ''page_1'')))))
       ''X'' [0, 180] ([], [], [])
       = rotations_loop (\<lambda>_. True)
       (ocrImage latin1 (\<lambda>tiffFile outputPrefix.
          files_with (Some (page_of_one_word
            (if outputPrefix = ''ocr-X'' then ''page_2'' else ''page_1'')))))
       ''X'' [180] ([], ''ocr-X'', [(''X.tiff'', ''ocr-X'')])"
    using unreadable_markup_is_fatal_missing_page_is_skipped
      [where world = "\<lambda>tiffFile outputPrefix.
          files_with (Some (page_of_one_word
            (if outputPrefix = ''ocr-X'' then ''page_2'' else ''page_1'')))"
        and fileId = "''X''" and a = 0 and post = "[180]" and convert = "\<lambda>_. True"
        and U = latin1 and title = "[]" and p = "[]" and calls = "[]"
        and doc = "page_of_one_word ''page_2''"]
    by (simp add: files_with_def page_of_one_word_def outputPrefixR_of_def ocrInput_of_def
        tiffFile_of_def call_of_def)
  have rest: "rotations_loop (\<lambda>_. True)
       (ocrImage latin1 (\<lambda>tiffFile outputPrefix.
          files_with (Some (page_of_one_word
            (if outputPrefix = ''ocr-X'' then ''page_2'' else ''page_1'')))))
       ''X'' [180] ([], ''ocr-X'', [(''X.tiff'', ''ocr-X'')])
     = Inr (''Rechnung '', ''ocr-X-r180'',
            [(''X.tiff'', ''ocr-X''), (''X.tiff-r180.tiff'', ''ocr-X-r180'')])"
    by code_simp
  from fatal skipped rest show ?thesis
    by simp
qed

text \<open>The claim as it is written fails: the markup of the first candidate is not read,
  the second candidate would give a title with confidence 95, and the run ends with
  the failure of the first.\<close>

theorem unreadable_first_candidate_fails_the_document:
  "rotate_and_ocr latin1 (\<lambda>_. True)
     (\<lambda>tiffFile outputPrefix.
        files_with (if outputPrefix = ''ocr-X'' then None
                    else Some (page_of_one_word ''page_1'')))
     ''X'' rotations = Inl LogFatal
   \<and> ocrImage latin1
     (\<lambda>tiffFile outputPrefix.
        files_with (if outputPrefix = ''ocr-X'' then None
                    else Some (page_of_one_word ''page_1'')))
     ''X.tiff-r180.tiff'' ''ocr-X-r180'' = Inr (''Rechnung '', 95)"
  by code_simp

end
